theory Spec2Isabelle
  imports Complex_Main "HOL-Library.AList"
begin

section \<open>Text primitives of Python used by the processors\<close>

text \<open>
  A Python \<^verbatim>\<open>str\<close> is modelled as a \<^typ>\<open>string\<close>: a list of 8-bit characters, read as
  the code points below 256. Numbers (Python floats and ints held in invoice records) are
  modelled as exact \<^typ>\<open>real\<close> values; rounding of binary floating point is not represented.
\<close>

definition newline :: char where
  "newline = CHR 0x0A"

definition is_digit :: "char \<Rightarrow> bool" where
  \<comment> \<open>\<^verbatim>\<open>\d\<close> on code points below 256\<close>
  "is_digit c = (c \<in> set ''0123456789'')"

definition is_space :: "char \<Rightarrow> bool" where
  \<comment> \<open>\<^verbatim>\<open>str.isspace\<close> and \<^verbatim>\<open>\s\<close> on code points below 256\<close>
  "is_space c = (c \<in> set [CHR 0x09, CHR 0x0A, CHR 0x0B, CHR 0x0C, CHR 0x0D,
                            CHR 0x1C, CHR 0x1D, CHR 0x1E, CHR 0x1F, CHR 0x20,
                            CHR 0x85, CHR 0xA0])"

definition is_linebreak :: "char \<Rightarrow> bool" where
  \<comment> \<open>the line boundaries of \<^verbatim>\<open>str.splitlines\<close> below 256\<close>
  "is_linebreak c = (c \<in> set [CHR 0x0A, CHR 0x0B, CHR 0x0C, CHR 0x0D,
                                CHR 0x1C, CHR 0x1D, CHR 0x1E, CHR 0x85])"

definition lower_char :: "char \<Rightarrow> char" where
  "lower_char c =
     (case map_of (zip ''ABCDEFGHIJKLMNOPQRSTUVWXYZ'' ''abcdefghijklmnopqrstuvwxyz'') c of
        Some l \<Rightarrow> l
      | None \<Rightarrow> c)"

definition lower :: "string \<Rightarrow> string" where
  \<comment> \<open>\<^verbatim>\<open>str.lower\<close>; only used to look for ASCII keywords\<close>
  "lower s = map lower_char s"

definition lstrip :: "string \<Rightarrow> string" where
  "lstrip s = dropWhile is_space s"

definition rstrip :: "string \<Rightarrow> string" where
  "rstrip s = rev (dropWhile is_space (rev s))"

definition strip :: "string \<Rightarrow> string" where
  \<comment> \<open>\<^verbatim>\<open>str.strip()\<close>\<close>
  "strip s = rstrip (lstrip s)"

fun starts_with :: "string \<Rightarrow> string \<Rightarrow> bool" where
  "starts_with [] s = True"
| "starts_with (p # ps) [] = False"
| "starts_with (p # ps) (c # cs) = (p = c \<and> starts_with ps cs)"

fun py_in :: "string \<Rightarrow> string \<Rightarrow> bool" where
  \<comment> \<open>\<^verbatim>\<open>p in s\<close> on strings: \<open>p\<close> occurs in \<open>s\<close> as a contiguous substring\<close>
  "py_in p [] = (p = [])"
| "py_in p (c # cs) = (starts_with p (c # cs) \<or> py_in p cs)"

fun splitlines_from :: "string \<Rightarrow> string \<Rightarrow> string list" where
  \<comment> \<open>first argument: the current line, reversed\<close>
  "splitlines_from cur [] = (if cur = [] then [] else [rev cur])"
| "splitlines_from cur (c # cs) =
     (if c = CHR 0x0D \<and> (case cs of d # _ \<Rightarrow> d = CHR 0x0A | [] \<Rightarrow> False)
        then rev cur # splitlines_from [] (tl cs)
      else if is_linebreak c then rev cur # splitlines_from [] cs
      else splitlines_from (c # cur) cs)"

definition splitlines :: "string \<Rightarrow> string list" where
  \<comment> \<open>\<^verbatim>\<open>str.splitlines()\<close>\<close>
  "splitlines s = splitlines_from [] s"

definition replace_comma :: "string \<Rightarrow> string" where
  \<comment> \<open>\<^verbatim>\<open>s.replace(",", ".")\<close>\<close>
  "replace_comma s = map (\<lambda>c. if c = CHR '','' then CHR ''.'' else c) s"

definition join :: "string \<Rightarrow> string list \<Rightarrow> string" where
  \<comment> \<open>\<^verbatim>\<open>sep.join(xs)\<close>\<close>
  "join sep xs = (case xs of [] \<Rightarrow> [] | y # ys \<Rightarrow> y @ concat (map (\<lambda>z. sep @ z) ys))"

definition digit_val :: "char \<Rightarrow> nat" where
  "digit_val c =
     (case map_of (zip ''0123456789'' [0, 1, 2, 3, 4, 5, 6, 7, 8, 9]) c of
        Some d \<Rightarrow> d
      | None \<Rightarrow> 0)"

definition nat_of_digits :: "string \<Rightarrow> nat" where
  \<comment> \<open>\<^verbatim>\<open>int(s)\<close> on a string of decimal digits\<close>
  "nat_of_digits s = foldl (\<lambda>n c. 10 * n + digit_val c) 0 s"

datatype py_error = ValueError | KeyError | TypeError | IndexError | JSONDecodeError | External string

definition py_float :: "string \<Rightarrow> py_error + real" where
  \<comment> \<open>\<^verbatim>\<open>float(s)\<close> on the decimal literals the extractors hand to it: digits, optionally
      followed by a point and more digits. Any other text is reported as \<open>ValueError\<close>.\<close>
  "py_float s =
     (let ip = takeWhile is_digit s; rest = dropWhile is_digit s in
      if ip = [] then Inl ValueError
      else if rest = [] then Inr (real (nat_of_digits ip))
      else if hd rest = CHR ''.'' \<and> list_all is_digit (tl rest)
        then Inr (real (nat_of_digits ip) + real (nat_of_digits (tl rest)) / 10 ^ length (tl rest))
      else Inl ValueError)"

section \<open>Regular expressions as Python's \<^verbatim>\<open>re\<close> matches them\<close>

text \<open>
  The patterns of the source use character classes, concatenation, alternation, optional
  groups, bounded and unbounded repetition of a character class (greedy or lazy), capture
  groups and the end anchor. The matcher returns every way a pattern can match a prefix of
  its input, in the order in which a backtracking matcher tries them; Python reports the first.
\<close>

datatype cset = CChar char | CDigit | CSpace | CDot | CSet string | CNot cset | COr cset cset

fun cmem :: "cset \<Rightarrow> char \<Rightarrow> bool" where
  "cmem (CChar c) x = (x = c)"
| "cmem CDigit x = is_digit x"
| "cmem CSpace x = is_space x"
| "cmem CDot x = (x \<noteq> newline)"
| "cmem (CSet cs) x = (x \<in> set cs)"
| "cmem (CNot c) x = (\<not> cmem c x)"
| "cmem (COr a b) x = (cmem a x \<or> cmem b x)"

datatype regex =
    Eps
  | Cls cset
  | Seq regex regex
  | Alt regex regex
  | Opt regex
  | Rep cset nat "nat option" bool
  | Grp nat regex
  | Eol

type_synonym captures = "(nat \<times> string) list"

definition rep_counts :: "cset \<Rightarrow> nat \<Rightarrow> nat option \<Rightarrow> bool \<Rightarrow> string \<Rightarrow> nat list" where
  \<comment> \<open>how many characters a repetition may take, in the order a backtracking matcher tries\<close>
  "rep_counts c lo hi greedy s =
     (let run = length (takeWhile (cmem c) s);
          top = (case hi of None \<Rightarrow> run | Some h \<Rightarrow> min h run);
          up = [lo ..< Suc top]
      in if greedy then rev up else up)"

fun rmatch :: "regex \<Rightarrow> string \<Rightarrow> captures \<Rightarrow> (string \<times> captures) list" where
  "rmatch Eps s caps = [(s, caps)]"
| "rmatch (Cls c) s caps =
     (case s of [] \<Rightarrow> [] | x # xs \<Rightarrow> if cmem c x then [(xs, caps)] else [])"
| "rmatch (Seq a b) s caps = concat (map (\<lambda>(s', caps'). rmatch b s' caps') (rmatch a s caps))"
| "rmatch (Alt a b) s caps = rmatch a s caps @ rmatch b s caps"
| "rmatch (Opt a) s caps = rmatch a s caps @ [(s, caps)]"
| "rmatch (Rep c lo hi greedy) s caps = map (\<lambda>k. (drop k s, caps)) (rep_counts c lo hi greedy s)"
| "rmatch (Grp n a) s caps =
     map (\<lambda>(s', caps'). (s', (n, take (length s - length s') s) # caps')) (rmatch a s caps)"
| "rmatch Eol s caps = (if s = [] \<or> s = [newline] then [(s, caps)] else [])"

record re_match =
  m_start :: nat
  m_text :: string
  m_groups :: captures

definition mgroup :: "re_match \<Rightarrow> nat \<Rightarrow> string" where
  \<comment> \<open>\<^verbatim>\<open>m.group(n)\<close> for a group that took part in the match\<close>
  "mgroup m n = (if n = 0 then m_text m else (case map_of (m_groups m) n of Some g \<Rightarrow> g | None \<Rightarrow> []))"

definition match_at :: "regex \<Rightarrow> nat \<Rightarrow> string \<Rightarrow> re_match option" where
  "match_at r pos s =
     (case rmatch r s [] of
        [] \<Rightarrow> None
      | (rest, caps) # _ \<Rightarrow>
          Some \<lparr>m_start = pos, m_text = take (length s - length rest) s, m_groups = caps\<rparr>)"

definition re_match :: "regex \<Rightarrow> string \<Rightarrow> re_match option" where
  \<comment> \<open>\<^verbatim>\<open>re.match\<close>: the pattern must match at position 0 (a leading \<^verbatim>\<open>^\<close> adds nothing)\<close>
  "re_match r s = match_at r 0 s"

fun search_from :: "regex \<Rightarrow> nat \<Rightarrow> string \<Rightarrow> re_match option" where
  "search_from r pos [] = match_at r pos []"
| "search_from r pos (c # cs) =
     (case match_at r pos (c # cs) of
        Some m \<Rightarrow> Some m
      | None \<Rightarrow> search_from r (Suc pos) cs)"

definition re_search :: "regex \<Rightarrow> string \<Rightarrow> re_match option" where
  \<comment> \<open>\<^verbatim>\<open>re.search\<close>: the leftmost position at which the pattern matches\<close>
  "re_search r s = search_from r 0 s"

definition lit :: "string \<Rightarrow> regex" where
  "lit s = foldr (\<lambda>c r. Seq (Cls (CChar c)) r) s Eps"

definition seqs :: "regex list \<Rightarrow> regex" where
  "seqs rs = foldr Seq rs Eps"

section \<open>Invoice records\<close>

text \<open>
  An InvoiceRecord is a Python dict. Its scalar-valued keys (\<^verbatim>\<open>invoice_number\<close>,
  \<^verbatim>\<open>invoice_date\<close>, \<^verbatim>\<open>total_amount\<close>, ...) are kept in \<open>scalars\<close>, an association list in
  insertion order; a key can be present and hold \<^verbatim>\<open>None\<close>, a number or a string. The three
  list-valued keys have a component each, \<open>None\<close> when the key is absent. A line item is a
  dict with the keys \<^verbatim>\<open>description\<close>, \<^verbatim>\<open>quantity\<close> and \<^verbatim>\<open>unit_price\<close>; the two numeric cells
  distinguish a key that is absent, one that holds \<^verbatim>\<open>None\<close> and one that holds a number.
\<close>

datatype pyval = PNone | PNum real | PStr string

datatype cell = Absent | Null | Num real

record line_item =
  description :: "string option"
  quantity :: cell
  unit_price :: cell

record anomalous_item =
  an_item :: line_item
  anomaly_score :: real
  is_anomaly :: int

record invoice =
  scalars :: "(string \<times> pyval) list"
  line_items :: "line_item list option"
  warnings :: "string list option"
  anomalous_items :: "anomalous_item list option"

definition empty_invoice :: invoice where
  \<comment> \<open>the dict \<^verbatim>\<open>{}\<close>\<close>
  "empty_invoice = \<lparr>scalars = [], line_items = None, warnings = None, anomalous_items = None\<rparr>"

definition has_field :: "invoice \<Rightarrow> string \<Rightarrow> bool" where
  \<comment> \<open>\<^verbatim>\<open>key in invoice\<close>, for a scalar-valued key\<close>
  "has_field invc k = (map_of (scalars invc) k \<noteq> None)"

definition set_field :: "string \<Rightarrow> pyval \<Rightarrow> invoice \<Rightarrow> invoice" where
  \<comment> \<open>\<^verbatim>\<open>invoice[key] = value\<close>: replaces the value in place or appends the key\<close>
  "set_field k v invc = invc\<lparr>scalars := AList.update k v (scalars invc)\<rparr>"

definition warnings_of :: "invoice \<Rightarrow> string list" where
  "warnings_of invc = (case warnings invc of None \<Rightarrow> [] | Some ws \<Rightarrow> ws)"

section \<open>Dates and \<^verbatim>\<open>datetime.strptime(s, "%m/%d/%Y")\<close>\<close>

record date =
  year :: nat
  month :: nat
  day :: nat

definition date_le :: "date \<Rightarrow> date \<Rightarrow> bool" where
  "date_le a b = (year a < year b \<or> (year a = year b \<and>
                   (month a < month b \<or> (month a = month b \<and> day a \<le> day b))))"

definition is_leap :: "nat \<Rightarrow> bool" where
  "is_leap y = (y mod 4 = 0 \<and> (y mod 100 \<noteq> 0 \<or> y mod 400 = 0))"

definition days_in_month :: "nat \<Rightarrow> nat \<Rightarrow> nat" where
  "days_in_month y m =
     (if m = 2 then (if is_leap y then 29 else 28)
      else if m \<in> {4, 6, 9, 11} then 30 else 31)"

definition valid_date :: "nat \<Rightarrow> nat \<Rightarrow> nat \<Rightarrow> bool" where
  \<comment> \<open>what the constructor of \<^verbatim>\<open>datetime\<close> accepts\<close>
  "valid_date y m d = (1 \<le> y \<and> y \<le> 9999 \<and> 1 \<le> m \<and> m \<le> 12 \<and> 1 \<le> d \<and> d \<le> days_in_month y m)"

definition digits19 :: cset where
  "digits19 = CSet ''123456789''"

definition strptime_regex :: regex where
  \<comment> \<open>the pattern the standard library builds for \<^verbatim>\<open>%m/%d/%Y\<close>:
      \<^verbatim>\<open>(?P<m>1[0-2]|0[1-9]|[1-9])/(?P<d>3[0-1]|[1-2]\d|0[1-9]|[1-9]| [1-9])/(?P<Y>\d\d\d\d)\<close>\<close>
  "strptime_regex = seqs
     [Grp 1 (Alt (Seq (Cls (CChar CHR ''1'')) (Cls (CSet ''012'')))
            (Alt (Seq (Cls (CChar CHR ''0'')) (Cls digits19))
                 (Cls digits19))),
      Cls (CChar CHR ''/''),
      Grp 2 (Alt (Seq (Cls (CChar CHR ''3'')) (Cls (CSet ''01'')))
            (Alt (Seq (Cls (CSet ''12'')) (Cls CDigit))
            (Alt (Seq (Cls (CChar CHR ''0'')) (Cls digits19))
            (Alt (Cls digits19)
                 (Seq (Cls (CChar CHR '' '')) (Cls digits19)))))),
      Cls (CChar CHR ''/''),
      Grp 3 (seqs [Cls CDigit, Cls CDigit, Cls CDigit, Cls CDigit])]"

definition strptime_mdY :: "string \<Rightarrow> py_error + date" where
  \<comment> \<open>no match, text left over after the match, or a day the calendar does not have:
      \<open>ValueError\<close>\<close>
  "strptime_mdY s =
     (case re_match strptime_regex s of
        None \<Rightarrow> Inl ValueError
      | Some found \<Rightarrow>
          if length s \<noteq> length (m_text found) then Inl ValueError
          else let y = nat_of_digits (mgroup found 3);
                   m = nat_of_digits (mgroup found 1);
                   d = nat_of_digits (mgroup found 2)
               in if valid_date y m d then Inr \<lparr>year = y, month = m, day = d\<rparr>
                  else Inl ValueError)"

definition strptime :: "pyval \<Rightarrow> py_error + date" where
  \<comment> \<open>a value that is not a string makes \<^verbatim>\<open>strptime\<close> raise \<open>TypeError\<close>\<close>
  "strptime v = (case v of PStr s \<Rightarrow> strptime_mdY s | _ \<Rightarrow> Inl TypeError)"

section \<open>The fraud analyzer (\<^verbatim>\<open>processors/invoice_analyzer.py\<close>)\<close>

record analysis =
  a_status :: string
  a_message :: string
  a_invoice :: "invoice option"

type_synonym forest = "(real \<times> real) list \<Rightarrow> real \<times> real \<Rightarrow> real \<times> int"

text \<open>
  The outlier model of scikit-learn is a parameter: \<open>forest rows row\<close> is the score
  (\<^verbatim>\<open>decision_function\<close>) and the label (\<^verbatim>\<open>predict\<close>, \<open>-1\<close> for an outlier) that the model
  fitted on \<open>rows\<close> gives to \<open>row\<close>. Both calls return one value per row they are given.
  \<open>fmt\<close> is how an f-string prints a number.
\<close>

definition required_fields :: "string list" where
  "required_fields = [''invoice_number'', ''supplier_name'', ''invoice_date'', ''tax_id'',
                      ''bank_account'', ''total_amount'']"

definition missing_fields :: "invoice \<Rightarrow> string list" where
  "missing_fields invc = filter (\<lambda>field. \<not> has_field invc field) required_fields"

definition outside_msg :: string where
  "outside_msg = ''Invoice date is outside the contract period.''"

definition unparsable_msg :: string where
  "unparsable_msg = ''Unable to parse invoice date format.''"

definition ml_msg :: string where
  "ml_msg = ''Potential fraud/anomalies detected via machine learning model.''"

definition high_price_msg :: "(real \<Rightarrow> string) \<Rightarrow> real \<Rightarrow> string \<Rightarrow> string" where
  "high_price_msg fmt p d = ''High unit price detected: '' @ fmt p @ '' for '' @ d"

definition date_validation :: "invoice \<Rightarrow> date option \<Rightarrow> date option \<Rightarrow> string list" where
  \<comment> \<open>lines 28-35; the bare \<^verbatim>\<open>except\<close> turns every exception into the second warning\<close>
  "date_validation invc contract_start contract_end =
     (case (contract_start, contract_end, map_of (scalars invc) ''invoice_date'') of
        (Some cs, Some ce, Some v) \<Rightarrow>
          (case strptime v of
             Inr d \<Rightarrow> if \<not> (date_le cs d \<and> date_le d ce) then [outside_msg] else []
           | Inl e \<Rightarrow> [unparsable_msg])
      | _ \<Rightarrow> [])"

fun high_price_loop :: "(real \<Rightarrow> string) \<Rightarrow> line_item list \<Rightarrow> string list \<Rightarrow> py_error + string list" where
  \<comment> \<open>lines 39-41; \<^verbatim>\<open>item['description']\<close> raises \<open>KeyError\<close> when the key is absent\<close>
  "high_price_loop fmt [] issues = Inr issues"
| "high_price_loop fmt (item # items) issues =
     (case unit_price item of
        Num p \<Rightarrow>
          if p \<noteq> 0 \<and> p > 100 then
            (case description item of
               None \<Rightarrow> Inl KeyError
             | Some d \<Rightarrow> high_price_loop fmt items (issues @ [high_price_msg fmt p d]))
          else high_price_loop fmt items issues
      | _ \<Rightarrow> high_price_loop fmt items issues)"

definition numeric_rows :: "line_item list \<Rightarrow> (real \<times> real) list" where
  \<comment> \<open>\<^verbatim>\<open>df_items[['unit_price', 'quantity']].dropna()\<close>\<close>
  "numeric_rows items =
     List.map_filter (\<lambda>item. case (unit_price item, quantity item) of
                               (Num p, Num q) \<Rightarrow> Some (p, q)
                             | _ \<Rightarrow> None) items"

definition anomaly_detection ::
  "forest \<Rightarrow> line_item list \<Rightarrow> invoice \<Rightarrow> string list \<Rightarrow> py_error + invoice \<times> string list" where
  \<comment> \<open>lines 44-55. Assigning a column whose length differs from the number of rows of
      the frame raises \<open>ValueError\<close> in pandas.\<close>
  "anomaly_detection forest items invc issues =
     (if list_ex (\<lambda>item. unit_price item \<noteq> Absent) items \<and>
         list_ex (\<lambda>item. quantity item \<noteq> Absent) items then
        (let df_numeric = numeric_rows items in
         if df_numeric \<noteq> [] then
           (let scores = map (\<lambda>row. fst (forest df_numeric row)) df_numeric;
                labels = map (\<lambda>row. snd (forest df_numeric row)) df_numeric
            in if length scores \<noteq> length items then Inl ValueError
               else if length labels \<noteq> length items then Inl ValueError
               else
                 (let anomalies =
                        map (\<lambda>(item, s, l). \<lparr>an_item = item, anomaly_score = s, is_anomaly = l\<rparr>)
                          (filter (\<lambda>(item, s, l). l = - 1) (zip items (zip scores labels)))
                  in if anomalies \<noteq> [] then
                       Inr (invc\<lparr>anomalous_items := Some anomalies\<rparr>, issues @ [ml_msg])
                     else Inr (invc, issues)))
         else Inr (invc, issues))
      else Inr (invc, issues))"

definition line_item_analysis ::
  "(real \<Rightarrow> string) \<Rightarrow> forest \<Rightarrow> invoice \<Rightarrow> string list \<Rightarrow> py_error + invoice \<times> string list" where
  \<comment> \<open>lines 37-55\<close>
  "line_item_analysis fmt forest invc issues =
     (case line_items invc of
        Some (item # items) \<Rightarrow>
          (case high_price_loop fmt (item # items) issues of
             Inl e \<Rightarrow> Inl e
           | Inr issues' \<Rightarrow> anomaly_detection forest (item # items) invc issues')
      | _ \<Rightarrow> Inr (invc, issues))"

definition final_result :: "invoice \<Rightarrow> string list \<Rightarrow> analysis" where
  \<comment> \<open>lines 57-69\<close>
  "final_result invc issues =
     (if issues \<noteq> [] then
        \<lparr>a_status = ''warning'', a_message = ''Analysis completed with warnings'',
         a_invoice = Some (invc\<lparr>warnings := Some issues\<rparr>)\<rparr>
      else
        \<lparr>a_status = ''success'', a_message = ''No issues detected'', a_invoice = Some invc\<rparr>)"

definition analyze_invoice_for_fraud ::
  "(real \<Rightarrow> string) \<Rightarrow> forest \<Rightarrow> invoice \<Rightarrow> date option \<Rightarrow> date option \<Rightarrow> py_error + analysis" where
  "analyze_invoice_for_fraud fmt forest invc contract_start contract_end =
     (if invc = empty_invoice then
        Inr \<lparr>a_status = ''error'', a_message = ''Invalid invoice data'', a_invoice = None\<rparr>
      else if missing_fields invc \<noteq> [] then
        Inr \<lparr>a_status = ''warning'',
             a_message = ''Missing required fields: '' @ join '', '' (missing_fields invc),
             a_invoice = Some invc\<rparr>
      else
        (case line_item_analysis fmt forest invc (date_validation invc contract_start contract_end) of
           Inl e \<Rightarrow> Inl e
         | Inr (invc', issues) \<Rightarrow> Inr (final_result invc' issues)))"


section \<open>The heuristic extractor (\<^verbatim>\<open>DocumentProcessor.extract_invoice_data\<close>)\<close>

subsection \<open>The patterns of the source\<close>

definition upper_az :: cset where
  \<comment> \<open>\<^verbatim>\<open>[A-Z]\<close>\<close>
  "upper_az = CSet ''ABCDEFGHIJKLMNOPQRSTUVWXYZ''"

definition date_sep :: cset where
  \<comment> \<open>\<^verbatim>\<open>[./-]\<close>\<close>
  "date_sep = CSet ''./-''"

definition invoice_number_regex :: regex where
  \<comment> \<open>\<^verbatim>\<open>\d+\<close>\<close>
  "invoice_number_regex = Rep CDigit 1 None True"

definition date_regex :: regex where
  \<comment> \<open>\<^verbatim>\<open>(\d{1,2}[./-]\d{1,2}[./-]\d{4}|\d{4}[./-]\d{1,2}[./-]\d{1,2})\<close>\<close>
  "date_regex = Grp 1
     (Alt (seqs [Rep CDigit 1 (Some 2) True, Cls date_sep, Rep CDigit 1 (Some 2) True,
                 Cls date_sep, Rep CDigit 4 (Some 4) True])
          (seqs [Rep CDigit 4 (Some 4) True, Cls date_sep, Rep CDigit 1 (Some 2) True,
                 Cls date_sep, Rep CDigit 1 (Some 2) True]))"

definition tax_id_regex :: regex where
  \<comment> \<open>\<^verbatim>\<open>[\d-]+\<close>\<close>
  "tax_id_regex = Rep (COr CDigit (CChar CHR ''-'')) 1 None True"

definition iban_regex :: regex where
  \<comment> \<open>\<^verbatim>\<open>[A-Z]{2}\d{2}[A-Z0-9]{10,30}\<close>\<close>
  "iban_regex = seqs [Rep upper_az 2 (Some 2) True, Rep CDigit 2 (Some 2) True,
                      Rep (COr upper_az CDigit) 10 (Some 30) True]"

definition amount_shape :: regex where
  \<comment> \<open>\<^verbatim>\<open>\d{1,3}[.,]\d{2}\<close>\<close>
  "amount_shape = seqs [Rep CDigit 1 (Some 3) True, Cls (CSet ''.,''), Rep CDigit 2 (Some 2) True]"

definition total_shape :: regex where
  \<comment> \<open>\<^verbatim>\<open>\d{1,3}(?:[.,]\d{2})?\<close>\<close>
  "total_shape = Seq (Rep CDigit 1 (Some 3) True)
                     (Opt (Seq (Cls (CSet ''.,'')) (Rep CDigit 2 (Some 2) True)))"

definition total_regex :: regex where
  \<comment> \<open>\<^verbatim>\<open>\$?\s?(\d{1,3}(?:[.,]\d{2})?)\<close>\<close>
  "total_regex = seqs [Opt (Cls (CChar CHR ''$'')), Opt (Cls CSpace), Grp 1 total_shape]"

definition item_start_regex :: regex where
  \<comment> \<open>\<^verbatim>\<open>^\d+\.\s\<close>\<close>
  "item_start_regex = seqs [Rep CDigit 1 None True, Cls (CChar CHR ''.''), Cls CSpace]"

definition item_strict_regex :: regex where
  \<comment> \<open>\<^verbatim>\<open>^\d+\.\s(.+?)\s(\d{1,3}[.,]\d{2})$\<close>\<close>
  "item_strict_regex = seqs [Rep CDigit 1 None True, Cls (CChar CHR ''.''), Cls CSpace,
                             Grp 1 (Rep CDot 1 None False), Cls CSpace, Grp 2 amount_shape, Eol]"

definition amount_regex :: regex where
  \<comment> \<open>\<^verbatim>\<open>(\d{1,3}[.,]\d{2})\<close>\<close>
  "amount_regex = Grp 1 amount_shape"

definition price_line_regex :: regex where
  \<comment> \<open>\<^verbatim>\<open>^\d{1,3}[.,]\d{2}$\<close>\<close>
  "price_line_regex = Seq amount_shape Eol"

function re_sub_empty :: "regex \<Rightarrow> string \<Rightarrow> string" where
  \<comment> \<open>\<^verbatim>\<open>re.sub(pattern, '', s)\<close> for a pattern that cannot match the empty string: every match,
      from the left and not overlapping, is taken out\<close>
  "re_sub_empty r s =
     (case re_search r s of
        None \<Rightarrow> s
      | Some m \<Rightarrow>
          if m_text m = [] \<or> s = [] then s
          else take (m_start m) s @ re_sub_empty r (drop (m_start m + length (m_text m)) s))"
  by pat_completeness auto
termination
  by (relation "measure (\<lambda>(r, s). length s)") auto

declare re_sub_empty.simps [simp del]

definition split_dot1 :: "string \<Rightarrow> py_error + string" where
  \<comment> \<open>\<^verbatim>\<open>line.split('.', 1)[1]\<close>: the text after the first point, \<open>IndexError\<close> without one\<close>
  "split_dot1 s = (case dropWhile (\<lambda>c. c \<noteq> CHR ''.'') s of
                     [] \<Rightarrow> Inl IndexError
                   | _ # rest \<Rightarrow> Inr rest)"

subsection \<open>Loops that may raise\<close>

fun run_steps :: "(nat \<Rightarrow> 'st \<Rightarrow> py_error + 'st) \<Rightarrow> nat list \<Rightarrow> 'st \<Rightarrow> py_error + 'st" where
  \<comment> \<open>a \<^verbatim>\<open>for\<close> loop over indices; the first exception ends it\<close>
  "run_steps f [] st = Inr st"
| "run_steps f (i # rest) st =
     (case f i st of Inl e \<Rightarrow> Inl e | Inr st' \<Rightarrow> run_steps f rest st')"

subsection \<open>First pass: the named fields (lines 302-357)\<close>

definition get_next_nonempty :: "string list \<Rightarrow> nat \<Rightarrow> string" where
  "get_next_nonempty lines index =
     (case List.find (\<lambda>l. strip l \<noteq> []) (drop (Suc index) lines) of
        Some l \<Rightarrow> strip l
      | None \<Rightarrow> [])"

definition combined_text :: "string list \<Rightarrow> nat \<Rightarrow> string" where
  \<comment> \<open>\<^verbatim>\<open>line + " " + get_next_nonempty(i)\<close>\<close>
  "combined_text lines i = lines ! i @ '' '' @ get_next_nonempty lines i"

definition line_clean :: "string list \<Rightarrow> nat \<Rightarrow> string" where
  \<comment> \<open>\<^verbatim>\<open>line.strip().lower()\<close>\<close>
  "line_clean lines i = lower (strip (lines ! i))"

definition any_in :: "string list \<Rightarrow> string \<Rightarrow> bool" where
  \<comment> \<open>\<^verbatim>\<open>any(kw in s for kw in kws)\<close>\<close>
  "any_in kws s = list_ex (\<lambda>kw. py_in kw s) kws"

definition competing_keywords :: "string list" where
  "competing_keywords = [''tax id'', ''iban'', ''client'', ''total'', ''description'', ''qty'',
                         ''summary'', ''items'']"

fun scan_date :: "string list \<Rightarrow> re_match option" where
  \<comment> \<open>lines 318-324, over the lines after the current one\<close>
  "scan_date [] = None"
| "scan_date (l # rest) =
     (let future_line = strip l in
      if any_in competing_keywords (lower future_line) then scan_date rest
      else (case re_search date_regex future_line of
              Some m \<Rightarrow> Some m
            | None \<Rightarrow> scan_date rest))"

fun probe_total :: "string list \<Rightarrow> re_match option" where
  \<comment> \<open>lines 351-355, over the lines the loop visits\<close>
  "probe_total [] = None"
| "probe_total (future_line # rest) =
     (case re_search total_regex future_line of
        Some m \<Rightarrow> Some m
      | None \<Rightarrow> probe_total rest)"

definition is_invoice_number_line :: "string list \<Rightarrow> nat \<Rightarrow> bool" where
  "is_invoice_number_line lines i =
     (py_in ''invoice no'' (line_clean lines i) \<or> py_in ''invoice number'' (line_clean lines i))"

definition is_supplier_line :: "string list \<Rightarrow> nat \<Rightarrow> bool" where
  "is_supplier_line lines i =
     (py_in ''supplier'' (line_clean lines i) \<or> py_in ''seller'' (line_clean lines i))"

definition is_invoice_date_line :: "string list \<Rightarrow> nat \<Rightarrow> bool" where
  "is_invoice_date_line lines i =
     (py_in ''invoice date'' (lower (combined_text lines i)) \<or>
      py_in ''date of issue'' (lower (combined_text lines i)) \<or>
      py_in ''issue date'' (lower (combined_text lines i)) \<or>
      py_in ''date:'' (lower (combined_text lines i)))"

definition is_total_line :: "string list \<Rightarrow> nat \<Rightarrow> bool" where
  "is_total_line lines i =
     (py_in ''total amount'' (line_clean lines i) \<or> py_in ''total'' (line_clean lines i))"

definition set_from_match :: "string \<Rightarrow> nat \<Rightarrow> re_match option \<Rightarrow> invoice \<Rightarrow> invoice" where
  \<comment> \<open>\<^verbatim>\<open>if match: invoice[key] = match.group(n)\<close>\<close>
  "set_from_match key n found invc =
     (case found of Some m \<Rightarrow> set_field key (PStr (mgroup m n)) invc | None \<Rightarrow> invc)"

definition total_match :: "string list \<Rightarrow> nat \<Rightarrow> re_match option" where
  \<comment> \<open>lines 349-355: the current line, else the next lines up to index \<open>i + 3\<close>\<close>
  "total_match lines i =
     (case re_search total_regex (lines ! i) of
        Some m \<Rightarrow> Some m
      | None \<Rightarrow> probe_total (map (\<lambda>j. lines ! j) [Suc i ..< min (i + 4) (length lines)]))"

definition field_step :: "string list \<Rightarrow> nat \<Rightarrow> invoice \<Rightarrow> py_error + invoice" where
  "field_step lines i invc =
     (if is_invoice_number_line lines i then
        Inr (set_from_match ''invoice_number'' 0
               (re_search invoice_number_regex (combined_text lines i)) invc)
      else if is_supplier_line lines i then
        Inr (set_field ''supplier_name'' (PStr (get_next_nonempty lines i)) invc)
      else if is_invoice_date_line lines i then
        Inr (set_from_match ''invoice_date'' 1
               (case re_search date_regex (combined_text lines i) of
                  Some m \<Rightarrow> Some m
                | None \<Rightarrow> scan_date (drop (Suc i) lines)) invc)
      else if py_in ''service period'' (line_clean lines i) then
        Inr (set_from_match ''service_date'' 1
               (re_search date_regex (strip (combined_text lines i))) invc)
      else if py_in ''due date'' (line_clean lines i) then
        Inr (set_from_match ''due_date'' 1
               (re_search date_regex (strip (combined_text lines i))) invc)
      else if py_in ''tax id'' (line_clean lines i) \<and> \<not> has_field invc ''tax_id'' then
        Inr (set_from_match ''tax_id'' 0 (re_search tax_id_regex (combined_text lines i)) invc)
      else if py_in ''bank account'' (line_clean lines i) \<or> py_in ''iban'' (line_clean lines i) then
        Inr (set_from_match ''bank_account'' 0 (re_search iban_regex (combined_text lines i)) invc)
      else if is_total_line lines i then
        (case total_match lines i of
           Some m \<Rightarrow>
             (case py_float (replace_comma (mgroup m 1)) of
                Inl e \<Rightarrow> Inl e
              | Inr x \<Rightarrow> Inr (set_field ''total_amount'' (PNum x) invc))
         | None \<Rightarrow> Inr invc)
      else Inr invc)"

subsection \<open>Second pass: the line items (lines 359-404)\<close>

record item_state =
  collected :: "line_item list"
  current_item :: "line_item option"
  net_prices :: "real list"
  collecting_prices :: bool

definition init_item_state :: item_state where
  "init_item_state = \<lparr>collected = [], current_item = None, net_prices = [], collecting_prices = False\<rparr>"

definition close_item :: "item_state \<Rightarrow> item_state" where
  \<comment> \<open>\<^verbatim>\<open>if current_item: invoice['line_items'].append(current_item)\<close>\<close>
  "close_item st = (case current_item st of
                      Some c \<Rightarrow> st\<lparr>collected := collected st @ [c]\<rparr>
                    | None \<Rightarrow> st)"

definition new_item :: "string \<Rightarrow> real \<Rightarrow> line_item" where
  "new_item desc qty = \<lparr>description = Some desc, quantity = Num qty, unit_price = Null\<rparr>"

definition stop_keywords :: "string list" where
  "stop_keywords = [''summary'', ''vat'', ''net price'', ''gross'', ''client'', ''$'']"

definition open_item :: "string \<Rightarrow> item_state \<Rightarrow> py_error + item_state" where
  \<comment> \<open>lines 370-388, for a line that starts with an ordinal\<close>
  "open_item line st =
     (case re_match item_strict_regex line of
        Some m \<Rightarrow>
          (case py_float (replace_comma (mgroup m 2)) of
             Inl e \<Rightarrow> Inl e
           | Inr qty \<Rightarrow> Inr (st\<lparr>current_item := Some (new_item (strip (mgroup m 1)) qty)\<rparr>))
      | None \<Rightarrow>
          (case split_dot1 line of
             Inl e \<Rightarrow> Inl e
           | Inr rest \<Rightarrow>
               (let desc = strip rest in
                case (case re_search amount_regex desc of
                        Some m \<Rightarrow> py_float (replace_comma (mgroup m 1))
                      | None \<Rightarrow> Inr 1) of
                  Inl e \<Rightarrow> Inl e
                | Inr qty \<Rightarrow>
                    Inr (st\<lparr>current_item :=
                              Some (new_item (strip (re_sub_empty amount_regex desc)) qty)\<rparr>))))"

definition item_step :: "string list \<Rightarrow> nat \<Rightarrow> item_state \<Rightarrow> py_error + item_state" where
  "item_step lines i st =
     (let line = strip (lines ! i) in
      if re_match item_start_regex line \<noteq> None then open_item line (close_item st)
      else if current_item st \<noteq> None \<and> re_search amount_shape line = None \<and>
              \<not> any_in stop_keywords (lower line) then
        (case current_item st of
           Some c \<Rightarrow>
             (case description c of
                Some d \<Rightarrow> Inr (st\<lparr>current_item := Some (c\<lparr>description := Some (d @ '' '' @ strip line)\<rparr>)\<rparr>)
              | None \<Rightarrow> Inl KeyError)
         | None \<Rightarrow> Inr st)
      else if py_in ''net price'' (lower line) then Inr (st\<lparr>collecting_prices := True\<rparr>)
      else if collecting_prices st \<and> re_match price_line_regex line \<noteq> None then
        (case py_float (replace_comma line) of
           Inl e \<Rightarrow> Inl e
         | Inr p \<Rightarrow> Inr (st\<lparr>net_prices := net_prices st @ [p]\<rparr>))
      else if current_item st \<noteq> None \<and>
              (py_in ''summary'' (lower line) \<or> i = length lines - 1) then
        Inr ((close_item st)\<lparr>current_item := None\<rparr>)
      else Inr st)"

definition backfill_prices :: "real list \<Rightarrow> line_item list \<Rightarrow> line_item list" where
  \<comment> \<open>lines 402-404\<close>
  "backfill_prices prices its =
     map (\<lambda>(idx, item). if idx < length prices then item\<lparr>unit_price := Num (prices ! idx)\<rparr> else item)
         (List.enumerate 0 its)"

definition extract_invoice_data_body :: "string \<Rightarrow> py_error + invoice" where
  \<comment> \<open>the body of the \<^verbatim>\<open>try\<close> block\<close>
  "extract_invoice_data_body text =
     (let lines = splitlines text in
      case run_steps (field_step lines) [0 ..< length lines] empty_invoice of
        Inl e \<Rightarrow> Inl e
      | Inr invc \<Rightarrow>
          (case run_steps (item_step lines) [0 ..< length lines] init_item_state of
             Inl e \<Rightarrow> Inl e
           | Inr st \<Rightarrow>
               Inr (invc\<lparr>line_items :=
                           Some (backfill_prices (net_prices st) (collected (close_item st)))\<rparr>)))"

definition extract_invoice_data :: "string \<Rightarrow> invoice" where
  \<comment> \<open>any exception in the body gives the empty dict (lines 407-408); the two contract-date
      parameters of the source are not used by it\<close>
  "extract_invoice_data text =
     (case extract_invoice_data_body text of Inl e \<Rightarrow> empty_invoice | Inr invc \<Rightarrow> invc)"

section \<open>The AI-assisted extractor (\<^verbatim>\<open>_extract_with_ai\<close>, \<^verbatim>\<open>_extract_with_regex\<close>)\<close>

subsection \<open>The patterns of the source\<close>

definition quote :: char where
  "quote = CHR 0x22"

definition spaces :: regex where
  \<comment> \<open>\<^verbatim>\<open>\s*\<close>\<close>
  "spaces = Rep CSpace 0 None True"

definition quoted_key :: "string \<Rightarrow> regex" where
  \<comment> \<open>\<^verbatim>\<open>"key"\s*:\s*\<close>\<close>
  "quoted_key key = seqs [Cls (CChar quote), lit key, Cls (CChar quote), spaces,
                          Cls (CChar CHR '':''), spaces]"

definition string_field_regex :: "string \<Rightarrow> regex" where
  \<comment> \<open>\<^verbatim>\<open>"key"\s*:\s*"([^"]+)"\<close>\<close>
  "string_field_regex key =
     seqs [quoted_key key, Cls (CChar quote), Grp 1 (Rep (CNot (CChar quote)) 1 None True),
           Cls (CChar quote)]"

definition number_shape :: regex where
  \<comment> \<open>\<^verbatim>\<open>\d+\.?\d*\<close>\<close>
  "number_shape = seqs [Rep CDigit 1 None True, Opt (Cls (CChar CHR ''.'')), Rep CDigit 0 None True]"

definition total_field_regex :: regex where
  \<comment> \<open>\<^verbatim>\<open>"total_amount"\s*:\s*(\d+\.?\d*)\<close>\<close>
  "total_field_regex = seqs [quoted_key ''total_amount'', Grp 1 number_shape]"

definition item_regex :: regex where
  \<comment> \<open>\<^verbatim>\<open>"description"\s*:\s*"([^"]*)"\s*,\s*"quantity"\s*:\s*(\d+\.?\d*)\s*,\s*"unit_price"\s*:\s*(\d+\.?\d*)\<close>\<close>
  "item_regex =
     seqs [quoted_key ''description'', Cls (CChar quote),
           Grp 1 (Rep (CNot (CChar quote)) 0 None True), Cls (CChar quote),
           spaces, Cls (CChar CHR '',''), spaces,
           quoted_key ''quantity'', Grp 2 number_shape,
           spaces, Cls (CChar CHR '',''), spaces,
           quoted_key ''unit_price'', Grp 3 number_shape]"

definition fence_regex :: regex where
  \<comment> \<open>three backquotes, \<^verbatim>\<open>(?:json)?\s*([\s\S]*?)\s*\<close>, three backquotes\<close>
  "fence_regex =
     seqs [lit [CHR 0x60, CHR 0x60, CHR 0x60], Opt (lit ''json''), spaces,
           Grp 1 (Rep (COr CSpace (CNot CSpace)) 0 None False), spaces,
           lit [CHR 0x60, CHR 0x60, CHR 0x60]]"

function re_finditer :: "regex \<Rightarrow> string \<Rightarrow> re_match list" where
  \<comment> \<open>\<^verbatim>\<open>re.finditer\<close> for a pattern that cannot match the empty string: the matches from
      the left, not overlapping (positions are those in the rest of the text)\<close>
  "re_finditer r s =
     (case re_search r s of
        None \<Rightarrow> []
      | Some m \<Rightarrow>
          if m_text m = [] \<or> s = [] then [m]
          else m # re_finditer r (drop (m_start m + length (m_text m)) s))"
  by pat_completeness auto
termination
  by (relation "measure (\<lambda>(r, s). length s)") auto

declare re_finditer.simps [simp del]

subsection \<open>The regex fallback (lines 240-288)\<close>

definition string_fields :: "string list" where
  \<comment> \<open>in the order in which the source looks for them\<close>
  "string_fields = [''invoice_number'', ''invoice_date'', ''supplier_name'', ''tax_id'',
                    ''bank_account'']"

definition extract_string_fields :: "string \<Rightarrow> invoice \<Rightarrow> invoice" where
  \<comment> \<open>lines 244-267\<close>
  "extract_string_fields json_str invc =
     foldl (\<lambda>acc key. set_from_match key 1 (re_search (string_field_regex key) json_str) acc)
           invc string_fields"

definition extract_total_field :: "string \<Rightarrow> invoice \<Rightarrow> py_error + invoice" where
  \<comment> \<open>lines 269-272\<close>
  "extract_total_field json_str invc =
     (case re_search total_field_regex json_str of
        None \<Rightarrow> Inr invc
      | Some m \<Rightarrow>
          (case py_float (mgroup m 1) of
             Inl e \<Rightarrow> Inl e
           | Inr x \<Rightarrow> Inr (set_field ''total_amount'' (PNum x) invc)))"

fun extract_items :: "re_match list \<Rightarrow> py_error + line_item list" where
  \<comment> \<open>lines 280-286\<close>
  "extract_items [] = Inr []"
| "extract_items (m # rest) =
     (case py_float (mgroup m 2) of
        Inl e \<Rightarrow> Inl e
      | Inr q \<Rightarrow>
          (case py_float (mgroup m 3) of
             Inl e \<Rightarrow> Inl e
           | Inr p \<Rightarrow>
               (case extract_items rest of
                  Inl e \<Rightarrow> Inl e
                | Inr its \<Rightarrow>
                    Inr (\<lparr>description = Some (mgroup m 1), quantity = Num q, unit_price = Num p\<rparr>
                         # its))))"

definition extract_with_regex :: "string \<Rightarrow> py_error + invoice" where
  \<comment> \<open>\<^verbatim>\<open>_extract_with_regex\<close>\<close>
  "extract_with_regex json_str =
     (case extract_total_field json_str (extract_string_fields json_str empty_invoice) of
        Inl e \<Rightarrow> Inl e
      | Inr invc \<Rightarrow>
          (case extract_items (re_finditer item_regex json_str) of
             Inl e \<Rightarrow> Inl e
           | Inr its \<Rightarrow> Inr (invc\<lparr>line_items := Some its\<rparr>)))"

subsection \<open>Parsing the model's reply (lines 222-238)\<close>

text \<open>
  \<^verbatim>\<open>json.loads\<close> is a parameter: it returns the parsed value, of a type \<open>'j\<close> left open, or
  raises; \<open>JSONDecodeError\<close> is the exception the source catches.
\<close>

datatype 'j structured = Parsed 'j | Record invoice

record 'j ai_result =
  data :: "'j structured"
  raw_response :: string

definition json_str_of :: "string \<Rightarrow> string" where
  \<comment> \<open>lines 225-229: the inside of the first fenced block, else the whole reply, stripped\<close>
  "json_str_of ai_response =
     (case re_search fence_regex ai_response of
        Some json_match \<Rightarrow> strip (mgroup json_match 1)
      | None \<Rightarrow> strip ai_response)"

definition parse_ai_response ::
  "(string \<Rightarrow> py_error + 'j) \<Rightarrow> string \<Rightarrow> py_error + 'j ai_result" where
  \<comment> \<open>lines 224-238 of \<^verbatim>\<open>_extract_with_ai\<close>\<close>
  "parse_ai_response json_loads ai_response =
     (case json_loads (json_str_of ai_response) of
        Inr structured_json \<Rightarrow> Inr \<lparr>data = Parsed structured_json, raw_response = ai_response\<rparr>
      | Inl JSONDecodeError \<Rightarrow>
          (case extract_with_regex (json_str_of ai_response) of
             Inl e \<Rightarrow> Inl e
           | Inr structured_json \<Rightarrow>
               Inr \<lparr>data = Record structured_json, raw_response = ai_response\<rparr>)
      | Inl e \<Rightarrow> Inl e)"

definition extract_with_ai ::
  "(string \<Rightarrow> string \<Rightarrow> py_error + string) \<Rightarrow> (string \<Rightarrow> py_error + 'j) \<Rightarrow>
   string \<Rightarrow> string \<Rightarrow> py_error + 'j ai_result" where
  \<comment> \<open>\<^verbatim>\<open>_extract_with_ai\<close>: the request to the hosted model (a parameter: credential and text
      to the reply, or an exception), then the parsing of the reply\<close>
  "extract_with_ai chat_completion json_loads api_key text_content =
     (case chat_completion api_key text_content of
        Inl e \<Rightarrow> Inl e
      | Inr ai_response \<Rightarrow> parse_ai_response json_loads ai_response)"

section \<open>Document processing (\<^verbatim>\<open>process_document\<close>)\<close>

text \<open>
  The three paths of \<^verbatim>\<open>DocumentProcessor\<close> call libraries whose results depend on the bytes
  of the upload: the image decoder, the OCR engine, the PDF reader, the PDF rasterizer, the
  markup converter and the hosted model. Each is a parameter here, a function that returns
  its value or the exception it raised; everything the source itself does with those results
  is written out.
\<close>

record uploaded_file =
  name :: string
  getvalue :: string

record 'j libraries =
  image_open :: "string \<Rightarrow> py_error + string"
    \<comment> \<open>\<^verbatim>\<open>Image.open\<close>: bytes of the upload to an image\<close>
  image_to_string :: "string \<Rightarrow> py_error + string"
    \<comment> \<open>\<^verbatim>\<open>pytesseract.image_to_string\<close>\<close>
  page_texts :: "string \<Rightarrow> py_error + string list"
    \<comment> \<open>\<^verbatim>\<open>fitz.open(stream=..., filetype="pdf")\<close> and \<^verbatim>\<open>page.get_text()\<close> of every page\<close>
  convert_from_bytes :: "string \<Rightarrow> py_error + string list"
    \<comment> \<open>\<^verbatim>\<open>pdf2image.convert_from_bytes\<close>: one image per page\<close>
  markitdown_available :: bool
    \<comment> \<open>\<^verbatim>\<open>MARKITDOWN_AVAILABLE\<close>\<close>
  markitdown_convert :: "uploaded_file \<Rightarrow> py_error + string"
    \<comment> \<open>the temporary copy of the upload and \<^verbatim>\<open>MarkItDown().convert(file_path).text_content\<close>\<close>
  rmtree :: "py_error + unit"
    \<comment> \<open>\<^verbatim>\<open>shutil.rmtree(temp_dir)\<close>\<close>
  deepseek_api_key :: "string option"
    \<comment> \<open>\<^verbatim>\<open>st.session_state.get('deepseek_api_key', '')\<close>\<close>
  completions_create :: "string \<Rightarrow> string \<Rightarrow> py_error + string"
  loads :: "string \<Rightarrow> py_error + 'j"
  str_of :: "py_error \<Rightarrow> string"
    \<comment> \<open>\<^verbatim>\<open>str(e)\<close>\<close>

record 'j result =
  r_status :: string
  r_method :: "string option"
  r_message :: "string option"
  r_raw_text :: "string option"
  r_structured_data :: "'j structured option"
  r_formatted_text :: "string option"
  r_ai_extracted_text :: "string option"

definition error_result :: "string option \<Rightarrow> string \<Rightarrow> 'j result" where
  \<comment> \<open>\<^verbatim>\<open>{"status": "error", "method": ..., "message": ...}\<close>, the method key absent for \<open>None\<close>\<close>
  "error_result method message =
     \<lparr>r_status = ''error'', r_method = method, r_message = Some message, r_raw_text = None,
      r_structured_data = None, r_formatted_text = None, r_ai_extracted_text = None\<rparr>"

definition text_result :: "string \<Rightarrow> string \<Rightarrow> 'j result" where
  \<comment> \<open>the success dict of the image and the PDF path (lines 58-64 and 93-99)\<close>
  "text_result method extracted_text =
     \<lparr>r_status = ''success'', r_method = Some method, r_message = None,
      r_raw_text = Some extracted_text,
      r_structured_data = Some (Record (extract_invoice_data extracted_text)),
      r_formatted_text = Some extracted_text, r_ai_extracted_text = None\<rparr>"

definition process_image_ocr :: "'j libraries \<Rightarrow> uploaded_file \<Rightarrow> 'j result" where
  "process_image_ocr lib uploaded =
     (case image_open lib (getvalue uploaded) of
        Inl e \<Rightarrow> error_result (Some ''ocr'') (''Error processing image: '' @ str_of lib e)
      | Inr img \<Rightarrow>
          (case image_to_string lib img of
             Inl e \<Rightarrow> error_result (Some ''ocr'') (''Error processing image: '' @ str_of lib e)
           | Inr extracted_text \<Rightarrow> text_result ''ocr'' extracted_text))"

definition process_pdf_body :: "'j libraries \<Rightarrow> uploaded_file \<Rightarrow> py_error + 'j result" where
  \<comment> \<open>the body of the \<^verbatim>\<open>try\<close> block of \<^verbatim>\<open>process_pdf\<close>\<close>
  "process_pdf_body lib uploaded =
     (let file_bytes = getvalue uploaded in
      case page_texts lib file_bytes of
        Inl e \<Rightarrow> Inl e
      | Inr pages \<Rightarrow>
          (let extracted_text = join [newline] pages in
           if strip extracted_text = [] then
             (case convert_from_bytes lib file_bytes of
                Inl e \<Rightarrow> Inl e
              | Inr images \<Rightarrow>
                  (case images of
                     [] \<Rightarrow> Inl IndexError
                   | img # _ \<Rightarrow>
                       (case image_to_string lib img of
                          Inl e \<Rightarrow> Inl e
                        | Inr ocr_text \<Rightarrow> Inr (text_result ''ocr'' ocr_text))))
           else Inr (text_result ''text_extraction'' extracted_text)))"

definition process_pdf :: "'j libraries \<Rightarrow> uploaded_file \<Rightarrow> 'j result" where
  "process_pdf lib uploaded =
     (case process_pdf_body lib uploaded of
        Inr r \<Rightarrow> r
      | Inl e \<Rightarrow>
          error_result (Some ''pdf_processing'') (''Error processing PDF: '' @ str_of lib e))"

definition conversion_only_result :: "string \<Rightarrow> 'j result" where
  \<comment> \<open>the dict returned when no credential is configured (lines 134-139)\<close>
  "conversion_only_result markdown_content =
     \<lparr>r_status = ''warning'', r_method = Some ''markitdown'',
      r_message =
        Some ''DeepSeek API key not provided. Only markdown conversion is available.'',
      r_raw_text = Some markdown_content, r_structured_data = None,
      r_formatted_text = None, r_ai_extracted_text = None\<rparr>"

definition process_with_markitdown_body ::
  "'j libraries \<Rightarrow> uploaded_file \<Rightarrow> py_error + 'j result" where
  \<comment> \<open>the body of the \<^verbatim>\<open>try\<close> block of \<^verbatim>\<open>process_with_markitdown\<close>\<close>
  "process_with_markitdown_body lib uploaded =
     (case markitdown_convert lib uploaded of
        Inl e \<Rightarrow> Inl e
      | Inr markdown_content \<Rightarrow>
          (case deepseek_api_key lib of
             None \<Rightarrow>
               (case rmtree lib of
                  Inl e \<Rightarrow> Inl e
                | Inr _ \<Rightarrow>
                    Inr (conversion_only_result markdown_content))
           | Some api_key \<Rightarrow>
               if api_key = [] then
                 (case rmtree lib of
                    Inl e \<Rightarrow> Inl e
                  | Inr _ \<Rightarrow>
                      Inr (conversion_only_result markdown_content))
               else
                 (case extract_with_ai (completions_create lib) (loads lib) api_key
                         markdown_content of
                    Inl e \<Rightarrow> Inl e
                  | Inr structured_json \<Rightarrow>
                      (case rmtree lib of
                         Inl e \<Rightarrow> Inl e
                       | Inr _ \<Rightarrow>
                           Inr \<lparr>r_status = ''success'', r_method = Some ''markitdown'',
                                r_message = None, r_raw_text = Some markdown_content,
                                r_structured_data = Some (data structured_json),
                                r_formatted_text = Some markdown_content,
                                r_ai_extracted_text = Some (raw_response structured_json)\<rparr>))))"

definition process_with_markitdown :: "'j libraries \<Rightarrow> uploaded_file \<Rightarrow> 'j result" where
  "process_with_markitdown lib uploaded =
     (if \<not> markitdown_available lib then
        error_result (Some ''markitdown'')
          ''MarkItDown library is not installed. Please install it to use this feature.''
      else
        (case process_with_markitdown_body lib uploaded of
           Inr r \<Rightarrow> r
         | Inl e \<Rightarrow>
             error_result (Some ''markitdown'')
               (''Error processing with MarkItDown: '' @ str_of lib e)))"

definition last_segment :: "string \<Rightarrow> string" where
  \<comment> \<open>\<^verbatim>\<open>s.split('.')[-1]\<close>\<close>
  "last_segment s = rev (takeWhile (\<lambda>c. c \<noteq> CHR ''.'') (rev s))"

definition file_extension :: "uploaded_file \<Rightarrow> string" where
  \<comment> \<open>\<^verbatim>\<open>uploaded_file.name.split('.')[-1].lower()\<close>\<close>
  "file_extension uploaded = lower (last_segment (name uploaded))"

definition image_extensions :: "string list" where
  "image_extensions = [''png'', ''jpg'', ''jpeg'', ''bmp'', ''gif'', ''tiff'']"

definition process_document :: "'j libraries \<Rightarrow> uploaded_file option \<Rightarrow> 'j result" where
  "process_document lib uploaded_file =
     (case uploaded_file of
        None \<Rightarrow> error_result None ''No file uploaded''
      | Some uploaded \<Rightarrow>
          if file_extension uploaded \<in> set image_extensions then process_image_ocr lib uploaded
          else if file_extension uploaded = ''pdf'' then process_pdf lib uploaded
          else process_with_markitdown lib uploaded)"

section \<open>The language of a pattern\<close>

text \<open>
  What a pattern can match, as a set of strings, and what each of its groups can capture.
  These are used to state what the matcher guarantees.
\<close>

fun lang :: "regex \<Rightarrow> string set" where
  "lang Eps = {[]}"
| "lang (Cls c) = {[x] | x. cmem c x}"
| "lang (Seq a b) = {u @ v | u v. u \<in> lang a \<and> v \<in> lang b}"
| "lang (Alt a b) = lang a \<union> lang b"
| "lang (Opt a) = insert [] (lang a)"
| "lang (Rep c lo hi greedy) =
     {w. list_all (cmem c) w \<and> lo \<le> length w \<and> (case hi of None \<Rightarrow> True | Some h \<Rightarrow> length w \<le> h)}"
| "lang (Grp n a) = lang a"
| "lang Eol = {[]}"

fun glang :: "nat \<Rightarrow> regex \<Rightarrow> string set" where
  "glang n (Grp k a) = (if k = n then lang a else {}) \<union> glang n a"
| "glang n (Seq a b) = glang n a \<union> glang n b"
| "glang n (Alt a b) = glang n a \<union> glang n b"
| "glang n (Opt a) = glang n a"
| "glang n Eps = {}"
| "glang n (Cls c) = {}"
| "glang n (Rep c lo hi greedy) = {}"
| "glang n Eol = {}"

fun sets_group :: "nat \<Rightarrow> regex \<Rightarrow> bool" where
  \<comment> \<open>every match of the pattern fills group \<open>n\<close>\<close>
  "sets_group n (Grp k a) = (k = n \<or> sets_group n a)"
| "sets_group n (Seq a b) = (sets_group n a \<or> sets_group n b)"
| "sets_group n (Alt a b) = (sets_group n a \<and> sets_group n b)"
| "sets_group n (Opt a) = False"
| "sets_group n Eps = False"
| "sets_group n (Cls c) = False"
| "sets_group n (Rep c lo hi greedy) = False"
| "sets_group n Eol = False"

section \<open>Notions used to state the extractor's properties\<close>

definition described :: "item_state \<Rightarrow> bool" where
  \<comment> \<open>the item being collected has a description\<close>
  "described st = (case current_item st of None \<Rightarrow> True | Some c \<Rightarrow> description c \<noteq> None)"

definition first_digit_run :: "string \<Rightarrow> string" where
  \<comment> \<open>the leftmost maximal run of decimal digits of a text, empty when it has none\<close>
  "first_digit_run s = takeWhile is_digit (dropWhile (\<lambda>c. \<not> is_digit c) s)"

definition currency_token :: "string \<Rightarrow> bool" where
  \<comment> \<open>one to three digits, optionally followed by a point or comma and two digits\<close>
  "currency_token w =
     (let ds = takeWhile is_digit w; rest = dropWhile is_digit w in
      1 \<le> length ds \<and> length ds \<le> 3 \<and>
      (rest = [] \<or> (length rest = 3 \<and> (hd rest = CHR ''.'' \<or> hd rest = CHR '','') \<and>
                      list_all is_digit (tl rest))))"

fun invoice_number_after :: "string list \<Rightarrow> nat \<Rightarrow> pyval option" where
  \<comment> \<open>the value of \<^verbatim>\<open>invoice_number\<close> once the first pass has read the lines before index \<open>k\<close>\<close>
  "invoice_number_after lines 0 = None"
| "invoice_number_after lines (Suc k) =
     (if is_invoice_number_line lines k \<and> list_ex is_digit (combined_text lines k)
      then Some (PStr (first_digit_run (combined_text lines k)))
      else invoice_number_after lines k)"

definition token_value :: "string \<Rightarrow> real" where
  \<comment> \<open>the number a currency token denotes, its separator (point or comma) read as the decimal
      point: the leading digits, plus the two digits after the separator as hundredths\<close>
  "token_value w =
     (let ds = takeWhile is_digit w; rest = dropWhile is_digit w in
      real (nat_of_digits ds) +
      (if rest = [] then 0 else real (nat_of_digits (tl rest)) / 100))"

definition before_tax_id :: "string list \<Rightarrow> nat \<Rightarrow> bool" where
  \<comment> \<open>line \<open>i\<close> is taken by one of the five branches in front of the tax id branch\<close>
  "before_tax_id lines i =
     (is_invoice_number_line lines i \<or> is_supplier_line lines i \<or> is_invoice_date_line lines i \<or>
      py_in ''service period'' (line_clean lines i) \<or> py_in ''due date'' (line_clean lines i))"

fun tax_id_after :: "string list \<Rightarrow> nat \<Rightarrow> bool" where
  \<comment> \<open>whether \<^verbatim>\<open>tax_id\<close> is set once the first pass has read the lines before index \<open>k\<close>\<close>
  "tax_id_after lines 0 = False"
| "tax_id_after lines (Suc k) =
     (tax_id_after lines k \<or>
      (\<not> before_tax_id lines k \<and> py_in ''tax id'' (line_clean lines k) \<and>
       re_search tax_id_regex (combined_text lines k) \<noteq> None))"

definition total_branch :: "string list \<Rightarrow> nat \<Rightarrow> bool \<Rightarrow> bool" where
  \<comment> \<open>line \<open>i\<close> reaches the branch of the total: it has the keyword and none of the seven
      branches in front takes it (the tax id branch only takes a line while no tax id is known)\<close>
  "total_branch lines i tax_id_known =
     (is_total_line lines i \<and> \<not> before_tax_id lines i \<and>
      \<not> (py_in ''tax id'' (line_clean lines i) \<and> \<not> tax_id_known) \<and>
      \<not> py_in ''bank account'' (line_clean lines i) \<and> \<not> py_in ''iban'' (line_clean lines i))"

fun total_amount_after :: "string list \<Rightarrow> nat \<Rightarrow> pyval option" where
  \<comment> \<open>the value of \<^verbatim>\<open>total_amount\<close> once the first pass has read the lines before index \<open>k\<close>:
      that of the last line in the branch of the total for which the line or one of the three
      lines after it holds a token\<close>
  "total_amount_after lines 0 = None"
| "total_amount_after lines (Suc k) =
     (if total_branch lines k (tax_id_after lines k) then
        (case probe_total (take 4 (drop k lines)) of
           Some m \<Rightarrow> Some (PNum (token_value (mgroup m 1)))
         | None \<Rightarrow> total_amount_after lines k)
      else total_amount_after lines k)"
subsection \<open>Sample records\<close>

text \<open>
  Records in which the six required keys are present; \<^verbatim>\<open>invoice_number\<close> holds the empty
  string and \<^verbatim>\<open>supplier_name\<close> holds \<^verbatim>\<open>None\<close>. \<open>mixed_invoice\<close> has one line item with both
  numbers and one whose \<^verbatim>\<open>unit_price\<close> is \<^verbatim>\<open>None\<close>, as the heuristic extractor leaves an item
  for which it collected no price.
\<close>

definition sample_fields :: "string \<Rightarrow> (string \<times> pyval) list" where
  "sample_fields d = [(''invoice_number'', PStr ''''), (''supplier_name'', PNone),
     (''invoice_date'', PStr d), (''tax_id'', PStr ''949-84-9105''),
     (''bank_account'', PStr ''GB50ACIE59715038217063''), (''total_amount'', PNum 9)]"

definition sample_invoice :: "string \<Rightarrow> invoice" where
  "sample_invoice d = \<lparr>scalars = sample_fields d, line_items = None, warnings = None,
                        anomalous_items = None\<rparr>"

definition mixed_invoice :: invoice where
  "mixed_invoice = \<lparr>scalars = sample_fields ''02/15/2024'',
     line_items = Some [\<lparr>description = Some ''Wine rack'', quantity = Num 4, unit_price = Num 12\<rparr>,
                        \<lparr>description = Some ''Glasses'', quantity = Num 1, unit_price = Null\<rparr>],
     warnings = None, anomalous_items = None\<rparr>"

definition stale_invoice :: invoice where
  "stale_invoice = (sample_invoice ''02/15/2023'')\<lparr>warnings := Some [outside_msg]\<rparr>"

definition window_start :: date where
  "window_start = \<lparr>year = 2023, month = 1, day = 1\<rparr>"
definition window_end :: date where
  "window_end = \<lparr>year = 2023, month = 12, day = 31\<rparr>"

definition partial_invoice :: invoice where
  "partial_invoice = \<lparr>scalars = [(''invoice_number'', PStr ''61356291''),
                                   (''supplier_name'', PStr ''Chapman, Kim and Green''),
                                   (''invoice_date'', PStr ''09/06/2012''),
                                   (''total_amount'', PNum 9)],
                       line_items = Some [], warnings = None, anomalous_items = None\<rparr>"

definition fmt0 :: "real \<Rightarrow> string" where
  "fmt0 x = []"

definition forest0 :: forest where
  "forest0 rows row = (0, 1)"


subsection \<open>Sample texts\<close>

definition invoice_number_text :: string where
  "invoice_number_text = ''invoice number: INV-2024-0099''"

definition total_text :: string where
  "total_text = ''Total: 1234.56''"

definition plain_text :: string where
  "plain_text = ''hello''"

definition probed_total_text :: string where
  \<comment> \<open>the amount stands three lines below the keyword, with a comma\<close>
  "probed_total_text =
     ''Total'' @ [newline] @ ''due'' @ [newline] @ [newline] @ ''$ 76,08'' @ [newline] @ ''99''"

subsection \<open>Sample replies of the model\<close>



definition no_json :: "string \<Rightarrow> py_error + unit" where
  \<comment> \<open>a \<^verbatim>\<open>json.loads\<close> that rejects every text\<close>
  "no_json s = Inl JSONDecodeError"



section \<open>Sample uploads\<close>

definition documented_methods :: "string list" where
  \<comment> \<open>the method tags the specification lists\<close>
  "documented_methods = [''ocr'', ''text_extraction'', ''markup_conversion'']"

definition returned_methods :: "string list" where
  \<comment> \<open>the method tags written in the source\<close>
  "returned_methods = [''ocr'', ''text_extraction'', ''pdf_processing'', ''markitdown'']"

definition scanned_pdf :: uploaded_file where
  "scanned_pdf = \<lparr>name = ''Scan.PDF'', getvalue = ''%PDF-scan''\<rparr>"

definition text_pdf :: uploaded_file where
  "text_pdf = \<lparr>name = ''invoice.v2.pdf'', getvalue = ''%PDF-text''\<rparr>"

definition damaged_pdf :: uploaded_file where
  "damaged_pdf = \<lparr>name = ''damaged.pdf'', getvalue = ''not a pdf''\<rparr>"

definition photo :: uploaded_file where
  "photo = \<lparr>name = ''photo.JPG'', getvalue = ''jpeg bytes''\<rparr>"

definition sheet :: uploaded_file where
  "sheet = \<lparr>name = ''invoice.docx'', getvalue = ''docx bytes''\<rparr>"

definition lib0 :: "unit libraries" where
  \<comment> \<open>a reader that finds two blank pages in \<open>scanned_pdf\<close> and one page of text in
      \<open>text_pdf\<close>, an OCR engine that reads the same line in every image, no credential\<close>
  "lib0 =
     \<lparr>image_open = (\<lambda>b. Inr b),
      image_to_string = (\<lambda>i. Inr ''Total: 12.50''),
      page_texts = (\<lambda>b. if b = ''%PDF-scan'' then Inr [[], []]
                          else if b = ''%PDF-text'' then Inr [''Invoice no: 7'']
                          else Inl (External ''cannot open broken document'')),
      convert_from_bytes = (\<lambda>b. Inr [b, b]),
      markitdown_available = True,
      markitdown_convert = (\<lambda>f. Inr ''# Invoice''),
      rmtree = Inr (),
      deepseek_api_key = None,
      completions_create = (\<lambda>k t. Inl (External ''no connection'')),
      loads = no_json,
      str_of = (\<lambda>e. case e of External s \<Rightarrow> s | _ \<Rightarrow> [])\<rparr>"


section \<open>What the matcher guarantees\<close>

lemma rep_counts_bounds:
  assumes "k \<in> set (rep_counts c lo hi greedy s)"
  shows "lo \<le> k \<and> k \<le> length (takeWhile (cmem c) s) \<and>
         (case hi of None \<Rightarrow> True | Some h \<Rightarrow> k \<le> h)"
  using assms by (auto simp: rep_counts_def Let_def split: option.splits if_splits)

lemma take_run_all:
  assumes "k \<le> length (takeWhile P s)"
  shows "list_all P (take k s)"
proof -
  have "take k s = take k (takeWhile P s)"
    using assms by (metis append_eq_conv_conj takeWhile_dropWhile_id take_append take_all_iff
        diff_is_0_eq' take_0 append_Nil2 min.absorb2 take_take)
  moreover have "list_all P (takeWhile P s)"
    by (simp add: list_all_iff) (meson set_takeWhileD)
  ultimately show ?thesis
    by (metis list_all_iff in_set_takeD)
qed

lemma rmatch_sound:
  "(s', c') \<in> set (rmatch r s c) \<Longrightarrow>
   \<exists>w new. s = w @ s' \<and> w \<in> lang r \<and> c' = new @ c \<and>
     (\<forall>n g. (n, g) \<in> set new \<longrightarrow> g \<in> glang n r) \<and>
     (\<forall>n. sets_group n r \<longrightarrow> n \<in> fst ` set new)"
proof (induction r arbitrary: s c s' c')
  case Eps
  then show ?case by simp
next
  case (Cls x)
  then show ?case by (cases s) (auto split: if_splits)
next
  case (Seq a b)
  from Seq.prems obtain s1 c1 where
    a: "(s1, c1) \<in> set (rmatch a s c)" and b: "(s', c') \<in> set (rmatch b s1 c1)"
    by auto
  from Seq.IH(1) [OF a] obtain w1 new1 where
    1: "s = w1 @ s1" "w1 \<in> lang a" "c1 = new1 @ c"
       "\<forall>n g. (n, g) \<in> set new1 \<longrightarrow> g \<in> glang n a"
       "\<forall>n. sets_group n a \<longrightarrow> n \<in> fst ` set new1" by blast
  from Seq.IH(2) [OF b] obtain w2 new2 where
    2: "s1 = w2 @ s'" "w2 \<in> lang b" "c' = new2 @ c1"
       "\<forall>n g. (n, g) \<in> set new2 \<longrightarrow> g \<in> glang n b"
       "\<forall>n. sets_group n b \<longrightarrow> n \<in> fst ` set new2" by blast
  show ?case
  proof (intro exI [of _ "w1 @ w2"] exI [of _ "new2 @ new1"] conjI)
    show "s = (w1 @ w2) @ s'" using 1(1) 2(1) by simp
    show "w1 @ w2 \<in> lang (Seq a b)" using 1(2) 2(2) by auto
    show "c' = (new2 @ new1) @ c" using 1(3) 2(3) by simp
    show "\<forall>n g. (n, g) \<in> set (new2 @ new1) \<longrightarrow> g \<in> glang n (Seq a b)"
      using 1(4) 2(4) by auto
    show "\<forall>n. sets_group n (Seq a b) \<longrightarrow> n \<in> fst ` set (new2 @ new1)"
      using 1(5) 2(5) by (auto simp: image_Un)
  qed
next
  case (Alt a b)
  from Alt.prems have "(s', c') \<in> set (rmatch a s c) \<or> (s', c') \<in> set (rmatch b s c)" by simp
  then show ?case
  proof
    assume "(s', c') \<in> set (rmatch a s c)"
    from Alt.IH(1) [OF this] show ?thesis by fastforce
  next
    assume "(s', c') \<in> set (rmatch b s c)"
    from Alt.IH(2) [OF this] show ?thesis by fastforce
  qed
next
  case (Opt a)
  from Opt.prems have "(s', c') \<in> set (rmatch a s c) \<or> (s', c') = (s, c)" by auto
  then show ?case
  proof
    assume "(s', c') \<in> set (rmatch a s c)"
    from Opt.IH [OF this] show ?thesis by fastforce
  next
    assume "(s', c') = (s, c)"
    then show ?thesis by simp
  qed
next
  case (Rep x lo hi greedy)
  from Rep.prems obtain k where k: "k \<in> set (rep_counts x lo hi greedy s)"
    and eq: "s' = drop k s" "c' = c" by auto
  from rep_counts_bounds [OF k] have b: "lo \<le> k" "k \<le> length (takeWhile (cmem x) s)"
    "case hi of None \<Rightarrow> True | Some h \<Rightarrow> k \<le> h" by auto
  from b(2) have len: "k \<le> length s"
    by (meson le_trans length_takeWhile_le)
  have "take k s \<in> lang (Rep x lo hi greedy)"
    using take_run_all [OF b(2)] b(1,3) len by (auto split: option.splits simp: min_def)
  then show ?case using eq
    by (intro exI [of _ "take k s"] exI [of _ "[]"]) simp
next
  case (Grp n a)
  from Grp.prems obtain c1 where a: "(s', c1) \<in> set (rmatch a s c)"
    and c': "c' = (n, take (length s - length s') s) # c1" by auto
  from Grp.IH [OF a] obtain w new where
    1: "s = w @ s'" "w \<in> lang a" "c1 = new @ c"
       "\<forall>n g. (n, g) \<in> set new \<longrightarrow> g \<in> glang n a"
       "\<forall>n. sets_group n a \<longrightarrow> n \<in> fst ` set new" by blast
  have w: "take (length s - length s') s = w" using 1(1) by simp
  show ?case
  proof (intro exI [of _ w] exI [of _ "(n, w) # new"] conjI)
    show "s = w @ s'" by (rule 1(1))
    show "w \<in> lang (Grp n a)" using 1(2) by simp
    show "c' = ((n, w) # new) @ c" using c' w 1(3) by simp
    show "\<forall>k g. (k, g) \<in> set ((n, w) # new) \<longrightarrow> g \<in> glang k (Grp n a)"
      using 1(2,4) by auto
    show "\<forall>k. sets_group k (Grp n a) \<longrightarrow> k \<in> fst ` set ((n, w) # new)"
      using 1(5) by auto
  qed
next
  case Eol
  then show ?case by (auto split: if_splits)
qed

lemma match_at_sound:
  assumes "match_at r pos s = Some m"
  shows "m_start m = pos \<and> (\<exists>rest. s = m_text m @ rest \<and> (rest, m_groups m) \<in> set (rmatch r s [])) \<and>
         m_text m \<in> lang r \<and>
         (\<forall>n. n \<noteq> 0 \<longrightarrow> sets_group n r \<longrightarrow> mgroup m n \<in> glang n r)"
proof -
  from assms obtain rest caps tl where
    rm: "rmatch r s [] = (rest, caps) # tl" and
    m: "m = \<lparr>m_start = pos, m_text = take (length s - length rest) s, m_groups = caps\<rparr>"
    by (auto simp: match_at_def split: list.splits)
  then have "(rest, caps) \<in> set (rmatch r s [])" by simp
  from rmatch_sound [OF this] obtain w new where
    1: "s = w @ rest" "w \<in> lang r" "caps = new"
       "\<forall>n g. (n, g) \<in> set new \<longrightarrow> g \<in> glang n r"
       "\<forall>n. sets_group n r \<longrightarrow> n \<in> fst ` set new" by auto
  have t: "m_text m = w" using m 1(1) by simp
  have g: "mgroup m n \<in> glang n r" if "n \<noteq> 0" "sets_group n r" for n
  proof -
    from that 1(5) have "n \<in> fst ` set new" by blast
    then obtain g where "map_of new n = Some g"
      by (metis map_of_eq_None_iff not_Some_eq)
    moreover from this have "(n, g) \<in> set new" by (rule map_of_SomeD)
    ultimately show ?thesis using that 1(3,4) m by (simp add: mgroup_def)
  qed
  show ?thesis using m t 1 g rm by auto
qed

lemma search_from_sound:
  assumes "search_from r pos s = Some m"
  shows "(\<exists>pre rest. s = pre @ m_text m @ rest \<and> m_start m = pos + length pre) \<and>
         m_text m \<in> lang r \<and>
         (\<forall>n. n \<noteq> 0 \<longrightarrow> sets_group n r \<longrightarrow> mgroup m n \<in> glang n r)"
  using assms
proof (induction s arbitrary: pos)
  case Nil
  then have "match_at r pos [] = Some m" by simp
  from match_at_sound [OF this] show ?case by auto
next
  case (Cons c cs)
  show ?case
  proof (cases "match_at r pos (c # cs)")
    case (Some m')
    with Cons.prems have "match_at r pos (c # cs) = Some m" by simp
    from match_at_sound [OF this] show ?thesis
      by (metis append_Nil add.right_neutral list.size(3))
  next
    case None
    with Cons.prems have "search_from r (Suc pos) cs = Some m" by simp
    from Cons.IH [OF this] obtain pre rest where
      1: "cs = pre @ m_text m @ rest" "m_start m = Suc pos + length pre"
      and 2: "m_text m \<in> lang r" "\<forall>n. n \<noteq> 0 \<longrightarrow> sets_group n r \<longrightarrow> mgroup m n \<in> glang n r"
      by blast
    from 1 have "c # cs = (c # pre) @ m_text m @ rest \<and> m_start m = pos + length (c # pre)"
      by simp
    with 2 show ?thesis by blast
  qed
qed

lemma re_search_sound:
  assumes "re_search r s = Some m"
  shows "(\<exists>pre rest. s = pre @ m_text m @ rest \<and> m_start m = length pre) \<and>
         m_text m \<in> lang r \<and>
         (\<forall>n. n \<noteq> 0 \<longrightarrow> sets_group n r \<longrightarrow> mgroup m n \<in> glang n r)"
  using search_from_sound [of r 0 s m] assms by (simp add: re_search_def)

section \<open>Amounts read by \<^verbatim>\<open>float\<close>\<close>

lemma digit_val_le: "digit_val c \<le> 9"
  by (auto simp: digit_val_def split: option.splits if_splits)

lemma nat_of_digits_snoc: "nat_of_digits (s @ [c]) = 10 * nat_of_digits s + digit_val c"
  by (simp add: nat_of_digits_def)

lemma nat_of_digits_less: "nat_of_digits s < 10 ^ length s"
proof (induction s rule: rev_induct)
  case Nil
  then show ?case by (simp add: nat_of_digits_def)
next
  case (snoc c s)
  have "nat_of_digits (s @ [c]) = 10 * nat_of_digits s + digit_val c"
    by (rule nat_of_digits_snoc)
  also have "\<dots> \<le> 10 * nat_of_digits s + 9" using digit_val_le [of c] by simp
  also have "\<dots> < 10 * 10 ^ length s" using snoc.IH by simp
  finally show ?case by simp
qed

lemma is_digit_not_sep: "is_digit c \<Longrightarrow> c \<noteq> CHR ''.'' \<and> c \<noteq> CHR '',''"
  by (auto simp: is_digit_def)

lemma replace_comma_digits: "list_all is_digit ds \<Longrightarrow> replace_comma ds = ds"
  by (induction ds) (auto simp: replace_comma_def dest: is_digit_not_sep)

lemma replace_comma_append: "replace_comma (a @ b) = replace_comma a @ replace_comma b"
  by (simp add: replace_comma_def)

lemma py_float_digits:
  assumes "list_all is_digit ds" "ds \<noteq> []"
  shows "py_float ds = Inr (real (nat_of_digits ds))"
proof -
  from assms(1) have tw: "takeWhile is_digit ds = ds" and dw: "dropWhile is_digit ds = []"
    by (simp_all add: list_all_iff)
  show ?thesis unfolding py_float_def Let_def tw dw using assms(2) by simp
qed

lemma py_float_decimal:
  assumes "list_all is_digit ds" "ds \<noteq> []" "list_all is_digit fr"
  shows "py_float (ds @ CHR ''.'' # fr) =
           Inr (real (nat_of_digits ds) + real (nat_of_digits fr) / 10 ^ length fr)"
proof -
  have nd: "\<not> is_digit CHR ''.''" by (simp add: is_digit_def)
  from assms(1) nd have "takeWhile is_digit (ds @ CHR ''.'' # fr) = ds"
    by (simp add: list_all_iff takeWhile_append2)
  moreover from assms(1) nd have "dropWhile is_digit (ds @ CHR ''.'' # fr) = CHR ''.'' # fr"
    by (simp add: list_all_iff dropWhile_append2)
  ultimately have tw: "takeWhile is_digit (ds @ CHR ''.'' # fr) = ds"
    and dw: "dropWhile is_digit (ds @ CHR ''.'' # fr) = CHR ''.'' # fr" by simp_all
  show ?thesis unfolding py_float_def Let_def tw dw using assms(2,3) by simp
qed

lemma cmem_CDigit_eq: "cmem CDigit = is_digit"
  by (rule ext) simp

lemma lang_SeqE:
  assumes "w \<in> lang (Seq a b)"
  obtains u v where "w = u @ v" "u \<in> lang a" "v \<in> lang b"
  using assms by auto

lemma lang_Seq_Eps: "lang (Seq a Eps) = lang a"
  by auto

lemma rep_digit_lang:
  "w \<in> lang (Rep CDigit lo (Some hi) g) \<longleftrightarrow> list_all is_digit w \<and> lo \<le> length w \<and> length w \<le> hi"
  by (simp add: cmem_CDigit_eq)

lemma sep_digits_lang:
  assumes "v \<in> lang (Seq (Cls (CSet ''.,'')) (Rep CDigit 2 (Some 2) True))"
  shows "\<exists>sep fr. v = sep # fr \<and> (sep = CHR ''.'' \<or> sep = CHR '','') \<and>
           list_all is_digit fr \<and> length fr = 2"
proof -
  from assms obtain a fr where v: "v = a @ fr" and a: "a \<in> lang (Cls (CSet ''.,''))"
    and fr: "fr \<in> lang (Rep CDigit 2 (Some 2) True)"
    by (rule lang_SeqE)
  from a obtain sep where "a = [sep]" "sep = CHR ''.'' \<or> sep = CHR '',''" by auto
  moreover from fr have "list_all is_digit fr \<and> length fr = 2"
    unfolding rep_digit_lang by simp
  ultimately show ?thesis using v by simp
qed

lemma amount_shape_lang:
  assumes "w \<in> lang amount_shape"
  shows "\<exists>ds sep fr. w = ds @ sep # fr \<and> list_all is_digit ds \<and> 1 \<le> length ds \<and> length ds \<le> 3 \<and>
           (sep = CHR ''.'' \<or> sep = CHR '','') \<and> list_all is_digit fr \<and> length fr = 2"
proof -
  have "amount_shape = Seq (Rep CDigit 1 (Some 3) True)
          (Seq (Cls (CSet ''.,'')) (Seq (Rep CDigit 2 (Some 2) True) Eps))"
    by (simp add: amount_shape_def seqs_def)
  with assms have "w \<in> lang (Seq (Rep CDigit 1 (Some 3) True)
          (Seq (Cls (CSet ''.,'')) (Seq (Rep CDigit 2 (Some 2) True) Eps)))" by simp
  then obtain ds v where w: "w = ds @ v" and ds: "ds \<in> lang (Rep CDigit 1 (Some 3) True)"
    and v: "v \<in> lang (Seq (Cls (CSet ''.,'')) (Seq (Rep CDigit 2 (Some 2) True) Eps))"
    by (rule lang_SeqE)
  from v obtain a b where "v = a @ b" "a \<in> lang (Cls (CSet ''.,''))"
    "b \<in> lang (Seq (Rep CDigit 2 (Some 2) True) Eps)" by (rule lang_SeqE)
  then have "v \<in> lang (Seq (Cls (CSet ''.,'')) (Rep CDigit 2 (Some 2) True))"
    unfolding lang_Seq_Eps by (simp only: lang.simps(3)) blast
  from sep_digits_lang [OF this] obtain sep fr where
    "v = sep # fr" "sep = CHR ''.'' \<or> sep = CHR '',''" "list_all is_digit fr" "length fr = 2"
    by blast
  moreover from ds have "list_all is_digit ds \<and> 1 \<le> length ds \<and> length ds \<le> 3"
    unfolding rep_digit_lang by simp
  ultimately show ?thesis using w by blast
qed

lemma total_shape_lang:
  assumes "w \<in> lang total_shape"
  shows "\<exists>ds. list_all is_digit ds \<and> 1 \<le> length ds \<and> length ds \<le> 3 \<and>
           (w = ds \<or> (\<exists>sep fr. w = ds @ sep # fr \<and>
              (sep = CHR ''.'' \<or> sep = CHR '','') \<and> list_all is_digit fr \<and> length fr = 2))"
proof -
  from assms have "w \<in> lang (Seq (Rep CDigit 1 (Some 3) True)
                     (Opt (Seq (Cls (CSet ''.,'')) (Rep CDigit 2 (Some 2) True))))"
    by (simp only: total_shape_def)
  then obtain ds v where w: "w = ds @ v" and ds: "ds \<in> lang (Rep CDigit 1 (Some 3) True)"
    and v: "v \<in> lang (Opt (Seq (Cls (CSet ''.,'')) (Rep CDigit 2 (Some 2) True)))"
    by (rule lang_SeqE)
  from ds have d: "list_all is_digit ds \<and> 1 \<le> length ds \<and> length ds \<le> 3"
    unfolding rep_digit_lang by simp
  from v have "v = [] \<or> v \<in> lang (Seq (Cls (CSet ''.,'')) (Rep CDigit 2 (Some 2) True))"
    unfolding lang.simps(5) by blast
  then show ?thesis
  proof
    assume "v = []"
    with w d show ?thesis by auto
  next
    assume "v \<in> lang (Seq (Cls (CSet ''.,'')) (Rep CDigit 2 (Some 2) True))"
    from sep_digits_lang [OF this] w d show ?thesis by blast
  qed
qed

lemma py_float_sep:
  assumes "list_all is_digit ds" "1 \<le> length ds" "length ds \<le> 3"
    "sep = CHR ''.'' \<or> sep = CHR '',''" "list_all is_digit fr"
  shows "\<exists>x. py_float (replace_comma (ds @ sep # fr)) = Inr x \<and> 0 \<le> x \<and> x < 1000"
proof -
  from assms(2) have ne: "ds \<noteq> []" by auto
  have r: "replace_comma (ds @ sep # fr) = ds @ CHR ''.'' # fr"
    using assms(1,4,5) replace_comma_digits
    by (auto simp: replace_comma_append) (simp_all add: replace_comma_def)
  have "nat_of_digits ds < 10 ^ length ds" by (rule nat_of_digits_less)
  also have "\<dots> \<le> (10::nat) ^ 3" using assms(3) by (intro power_increasing) auto
  finally have ip: "nat_of_digits ds \<le> 999" by simp
  have f: "real (nat_of_digits fr) / 10 ^ length fr < 1"
    using nat_of_digits_less [of fr]
    by (simp add: divide_less_eq)
  have "real (nat_of_digits ds) + real (nat_of_digits fr) / 10 ^ length fr < 1000"
    using ip f by linarith
  moreover have "0 \<le> real (nat_of_digits ds) + real (nat_of_digits fr) / 10 ^ length fr"
    by simp
  ultimately show ?thesis
    using py_float_decimal [OF assms(1) ne assms(5)] r by simp
qed

lemma py_float_amount:
  assumes "w \<in> lang amount_shape"
  shows "\<exists>x. py_float (replace_comma w) = Inr x \<and> 0 \<le> x \<and> x < 1000"
proof -
  from amount_shape_lang [OF assms] obtain ds sep fr where
    "w = ds @ sep # fr" "list_all is_digit ds" "1 \<le> length ds" "length ds \<le> 3"
    "sep = CHR ''.'' \<or> sep = CHR '',''" "list_all is_digit fr" by blast
  then show ?thesis using py_float_sep by blast
qed

lemma py_float_total:
  assumes "w \<in> lang total_shape"
  shows "\<exists>x. py_float (replace_comma w) = Inr x \<and> 0 \<le> x \<and> x < 1000"
proof -
  from total_shape_lang [OF assms] obtain ds where
    ds: "list_all is_digit ds" "1 \<le> length ds" "length ds \<le> 3" and
    w: "w = ds \<or> (\<exists>sep fr. w = ds @ sep # fr \<and>
              (sep = CHR ''.'' \<or> sep = CHR '','') \<and> list_all is_digit fr \<and> length fr = 2)"
    by blast
  from w show ?thesis
  proof
    assume "w = ds"
    from ds(2) have ne: "ds \<noteq> []" by auto
    have "nat_of_digits ds < 10 ^ length ds" by (rule nat_of_digits_less)
    also have "\<dots> \<le> (10::nat) ^ 3" using ds(3) by (intro power_increasing) auto
    finally have "real (nat_of_digits ds) < 1000" by simp
    then show ?thesis
      using py_float_digits [OF ds(1) ne] replace_comma_digits [OF ds(1)] \<open>w = ds\<close> by simp
  next
    assume "\<exists>sep fr. w = ds @ sep # fr \<and>
              (sep = CHR ''.'' \<or> sep = CHR '','') \<and> list_all is_digit fr \<and> length fr = 2"
    then show ?thesis using py_float_sep [OF ds] by blast
  qed
qed

section \<open>One line of the first pass\<close>

lemma map_of_set_field:
  "map_of (scalars (set_field k v invc)) k' = (if k' = k then Some v else map_of (scalars invc) k')"
  by (simp add: set_field_def update_conv')

lemma set_field_frame:
  "line_items (set_field k v invc) = line_items invc"
  "warnings (set_field k v invc) = warnings invc"
  "anomalous_items (set_field k v invc) = anomalous_items invc"
  by (simp_all add: set_field_def)

lemma map_of_set_from_match:
  "map_of (scalars (set_from_match k n found invc)) k' =
     (case found of
        Some m \<Rightarrow> if k' = k then Some (PStr (mgroup m n)) else map_of (scalars invc) k'
      | None \<Rightarrow> map_of (scalars invc) k')"
  by (simp add: set_from_match_def map_of_set_field split: option.splits)

lemma glang_total_regex: "glang 1 total_regex = lang total_shape"
proof -
  have "glang 1 total_shape = {}" by (simp add: total_shape_def)
  then show ?thesis by (simp add: total_regex_def seqs_def)
qed

lemma sets_group_total_regex: "sets_group 1 total_regex"
  by (simp add: total_regex_def seqs_def)

lemma total_regex_group:
  assumes "re_search total_regex s = Some m"
  shows "mgroup m 1 \<in> lang total_shape"
  using re_search_sound [OF assms] sets_group_total_regex glang_total_regex by auto

lemma probe_total_Some:
  "probe_total ls = Some m \<Longrightarrow> \<exists>l \<in> set ls. re_search total_regex l = Some m"
  by (induction ls) (auto split: option.splits)

lemma total_match_group:
  assumes "total_match lines i = Some m"
  shows "mgroup m 1 \<in> lang total_shape"
proof (cases "re_search total_regex (lines ! i)")
  case (Some m')
  with assms have "re_search total_regex (lines ! i) = Some m" by (simp add: total_match_def)
  then show ?thesis by (rule total_regex_group)
next
  case None
  with assms have "probe_total (map (\<lambda>j. lines ! j) [Suc i ..< min (i + 4) (length lines)]) = Some m"
    by (simp add: total_match_def)
  from probe_total_Some [OF this] obtain l where "re_search total_regex l = Some m" by blast
  then show ?thesis by (rule total_regex_group)
qed

lemma total_match_float:
  assumes "total_match lines i = Some m"
  shows "\<exists>x. py_float (replace_comma (mgroup m 1)) = Inr x \<and> 0 \<le> x \<and> x < 1000"
  using py_float_total [OF total_match_group [OF assms]] .

lemma field_step_total: "\<exists>invc'. field_step lines i invc = Inr invc'"
proof (cases "total_match lines i")
  case None
  then show ?thesis by (simp add: field_step_def)
next
  case (Some m)
  from total_match_float [OF Some] obtain x where
    "py_float (replace_comma (mgroup m 1)) = Inr x" by blast
  with Some show ?thesis by (simp add: field_step_def)
qed

lemma field_step_frame:
  assumes "field_step lines i invc = Inr invc'"
  shows "line_items invc' = line_items invc \<and> warnings invc' = warnings invc \<and>
         anomalous_items invc' = anomalous_items invc"
  using assms
  by (auto simp: field_step_def set_from_match_def set_field_frame
      split: if_splits option.splits sum.splits)

lemma field_step_invoice_number:
  assumes "field_step lines i invc = Inr invc'"
  shows "map_of (scalars invc') ''invoice_number'' =
     (if is_invoice_number_line lines i then
        (case re_search invoice_number_regex (combined_text lines i) of
           Some m \<Rightarrow> Some (PStr (mgroup m 0))
         | None \<Rightarrow> map_of (scalars invc) ''invoice_number'')
      else map_of (scalars invc) ''invoice_number'')"
  using assms
  by (auto simp: field_step_def map_of_set_from_match map_of_set_field
      split: if_splits option.splits sum.splits)

lemma field_step_total_amount:
  assumes "field_step lines i invc = Inr invc'"
  shows "map_of (scalars invc') ''total_amount'' = map_of (scalars invc) ''total_amount'' \<or>
     (\<exists>m x. total_match lines i = Some m \<and> py_float (replace_comma (mgroup m 1)) = Inr x \<and>
            map_of (scalars invc') ''total_amount'' = Some (PNum x))"
  using assms
  by (auto simp: field_step_def map_of_set_from_match map_of_set_field
      split: if_splits option.splits sum.splits)

section \<open>The two passes of the extractor never raise\<close>

lemma run_steps_append:
  "run_steps f (xs @ ys) st =
     (case run_steps f xs st of Inl e \<Rightarrow> Inl e | Inr st' \<Rightarrow> run_steps f ys st')"
  by (induction xs arbitrary: st) (auto split: sum.splits)

lemma run_steps_upt_invariant:
  assumes init: "I 0 st0"
    and step: "\<And>k st. k < n \<Longrightarrow> I k st \<Longrightarrow> \<exists>st'. f k st = Inr st' \<and> I (Suc k) st'"
  shows "\<exists>st. run_steps f [0 ..< n] st0 = Inr st \<and> I n st"
proof -
  have "m \<le> n \<Longrightarrow> \<exists>st. run_steps f [0 ..< m] st0 = Inr st \<and> I m st" for m
  proof (induction m)
    case 0
    then show ?case using init by simp
  next
    case (Suc m)
    then obtain st where st: "run_steps f [0 ..< m] st0 = Inr st" "I m st" by auto
    from Suc.prems have "m < n" by simp
    from step [OF this st(2)] obtain st' where "f m st = Inr st'" "I (Suc m) st'" by blast
    with st(1) show ?case by (simp add: run_steps_append)
  qed
  then show ?thesis by blast
qed

lemma rstrip_last_not_space:
  assumes "rstrip s = w @ [c]"
  shows "\<not> is_space c"
proof -
  from assms have "dropWhile is_space (rev s) = c # rev w"
    by (metis rev_rev_ident rev.simps(2) rev_append rstrip_def append_Nil rev.simps(1) rev_swap)
  then show ?thesis by (metis hd_dropWhile list.sel(1) list.distinct(1))
qed

lemma strip_last_not_space: "strip s = w @ [c] \<Longrightarrow> \<not> is_space c"
  unfolding strip_def by (rule rstrip_last_not_space)

lemma is_space_newline: "is_space newline"
  by (simp add: is_space_def newline_def)

lemma split_dot1_has_dot:
  assumes "CHR ''.'' \<in> set s"
  shows "\<exists>rest. split_dot1 s = Inr rest"
proof -
  from assms have "dropWhile (\<lambda>c. c \<noteq> CHR ''.'') s \<noteq> []"
    by (auto simp: dropWhile_eq_Nil_conv)
  then show ?thesis by (auto simp: split_dot1_def split: list.splits)
qed

lemma item_start_has_dot:
  assumes "re_match item_start_regex line = Some m"
  shows "CHR ''.'' \<in> set line"
proof -
  from assms have "match_at item_start_regex 0 line = Some m" by (simp add: re_match_def)
  from match_at_sound [OF this] obtain rest where
    l: "line = m_text m @ rest" and w: "m_text m \<in> lang item_start_regex" by blast
  from w have "CHR ''.'' \<in> set (m_text m)"
    by (auto simp: item_start_regex_def seqs_def)
  with l show ?thesis by (metis Un_iff set_append)
qed

lemma glang_amount_shape: "glang n amount_shape = {}"
  by (simp add: amount_shape_def seqs_def)

lemma item_strict_group:
  assumes "re_match item_strict_regex line = Some m"
  shows "mgroup m 2 \<in> lang amount_shape"
proof -
  from assms have "match_at item_strict_regex 0 line = Some m" by (simp add: re_match_def)
  from match_at_sound [OF this]
  have g: "\<forall>n. n \<noteq> 0 \<longrightarrow> sets_group n item_strict_regex \<longrightarrow>
               mgroup m n \<in> glang n item_strict_regex" by blast
  have s: "sets_group 2 item_strict_regex" by (simp add: item_strict_regex_def seqs_def)
  have "glang 2 item_strict_regex = lang amount_shape"
    by (simp add: item_strict_regex_def seqs_def glang_amount_shape)
  with g s show ?thesis by (metis zero_neq_numeral)
qed

lemma amount_regex_group:
  assumes "re_search amount_regex s = Some m"
  shows "mgroup m 1 \<in> lang amount_shape"
proof -
  have "sets_group 1 amount_regex" by (simp add: amount_regex_def)
  moreover have "glang 1 amount_regex = lang amount_shape"
    by (simp add: amount_regex_def glang_amount_shape)
  moreover from re_search_sound [OF assms]
  have "\<forall>n. n \<noteq> 0 \<longrightarrow> sets_group n amount_regex \<longrightarrow>
            mgroup m n \<in> glang n amount_regex" by blast
  ultimately show ?thesis by (metis zero_neq_one)
qed

lemma price_line_whole:
  assumes "re_match price_line_regex (strip l) = Some m"
  shows "strip l \<in> lang amount_shape"
proof -
  from assms have "match_at price_line_regex 0 (strip l) = Some m" by (simp add: re_match_def)
  from match_at_sound [OF this] obtain rest where
    l: "strip l = m_text m @ rest" and
    r: "(rest, m_groups m) \<in> set (rmatch price_line_regex (strip l) [])" and
    w: "m_text m \<in> lang price_line_regex" by blast
  from r have "rest = [] \<or> rest = [newline]"
    by (auto simp: price_line_regex_def split: if_splits)
  moreover have "rest \<noteq> [newline]"
    using strip_last_not_space [of l "m_text m" newline] l is_space_newline by auto
  ultimately have "rest = []" by blast
  moreover from w have "m_text m \<in> lang amount_shape" by (auto simp: price_line_regex_def)
  ultimately show ?thesis using l by simp
qed


lemma open_item_total:
  assumes "re_match item_start_regex line = Some m0"
  shows "\<exists>st'. open_item line st = Inr st' \<and> described st'"
proof (cases "re_match item_strict_regex line")
  case (Some m)
  from py_float_amount [OF item_strict_group [OF Some]] obtain x where
    "py_float (replace_comma (mgroup m 2)) = Inr x" by blast
  with Some show ?thesis by (simp add: open_item_def described_def new_item_def)
next
  case None
  from split_dot1_has_dot [OF item_start_has_dot [OF assms]] obtain rest where
    rest: "split_dot1 line = Inr rest" by blast
  show ?thesis
  proof (cases "re_search amount_regex (strip rest)")
    case None': None
    with None rest show ?thesis
      by (simp add: open_item_def described_def new_item_def Let_def)
  next
    case (Some m)
    from py_float_amount [OF amount_regex_group [OF Some]] obtain x where
      "py_float (replace_comma (mgroup m 1)) = Inr x" by blast
    with None rest Some show ?thesis
      by (simp add: open_item_def described_def new_item_def Let_def)
  qed
qed

lemma described_close_item: "described st \<Longrightarrow> described (close_item st)"
  by (auto simp: described_def close_item_def split: option.splits)

lemma item_step_total:
  assumes "described st"
  shows "\<exists>st'. item_step lines i st = Inr st' \<and> described st'"
proof -
  define line where "line = strip (lines ! i)"
  define cont where "cont \<longleftrightarrow> current_item st \<noteq> None \<and> re_search amount_shape line = None \<and>
                              \<not> any_in stop_keywords (lower line)"
  define price where "price \<longleftrightarrow> collecting_prices st \<and> re_match price_line_regex line \<noteq> None"
  define closing where "closing \<longleftrightarrow> current_item st \<noteq> None \<and>
                              (py_in ''summary'' (lower line) \<or> i = length lines - 1)"
  have unfold: "item_step lines i st =
     (if re_match item_start_regex line \<noteq> None then open_item line (close_item st)
      else if cont then
        (case current_item st of
           Some c \<Rightarrow>
             (case description c of
                Some d \<Rightarrow> Inr (st\<lparr>current_item := Some (c\<lparr>description := Some (d @ '' '' @ strip line)\<rparr>)\<rparr>)
              | None \<Rightarrow> Inl KeyError)
         | None \<Rightarrow> Inr st)
      else if py_in ''net price'' (lower line) then Inr (st\<lparr>collecting_prices := True\<rparr>)
      else if price then
        (case py_float (replace_comma line) of
           Inl e \<Rightarrow> Inl e
         | Inr p \<Rightarrow> Inr (st\<lparr>net_prices := net_prices st @ [p]\<rparr>))
      else if closing then Inr ((close_item st)\<lparr>current_item := None\<rparr>)
      else Inr st)"
    unfolding item_step_def Let_def line_def cont_def price_def closing_def by (rule refl)
  show ?thesis
  proof (cases "re_match item_start_regex line")
    case (Some m0)
    from open_item_total [OF Some] show ?thesis unfolding unfold using Some by simp
  next
    case start: None
    show ?thesis
    proof (cases cont)
      case True
      then obtain c where c: "current_item st = Some c" by (auto simp: cont_def)
      with assms obtain d where d: "description c = Some d" by (auto simp: described_def)
      show ?thesis unfolding unfold using start True c d by (simp add: described_def)
    next
      case nc: False
      show ?thesis
      proof (cases "py_in ''net price'' (lower line)")
        case True
        then show ?thesis unfolding unfold using start nc assms by (simp add: described_def)
      next
        case np: False
        show ?thesis
        proof (cases price)
          case True
          then obtain m where "re_match price_line_regex (strip (lines ! i)) = Some m"
            by (auto simp: price_def line_def)
          from py_float_amount [OF price_line_whole [OF this]] obtain x where
            "py_float (replace_comma line) = Inr x" unfolding line_def by blast
          then show ?thesis unfolding unfold using start nc np True assms
            by (simp add: described_def)
        next
          case npr: False
          show ?thesis
          proof (cases closing)
            case True
            then show ?thesis unfolding unfold using start nc np npr
              by (simp add: described_def)
          next
            case False
            then show ?thesis unfolding unfold using start nc np npr assms by simp
          qed
        qed
      qed
    qed
  qed
qed

lemma item_pass_total:
  "\<exists>st. run_steps (item_step lines) [0 ..< n] init_item_state = Inr st"
proof -
  have "described init_item_state" by (simp add: described_def init_item_state_def)
  then have "\<exists>st. run_steps (item_step lines) [0 ..< n] init_item_state = Inr st \<and> described st"
    using item_step_total by (intro run_steps_upt_invariant [where I = "\<lambda>k. described"]) blast+
  then show ?thesis by blast
qed

lemma field_pass_invariant:
  assumes "P 0 empty_invoice"
    and "\<And>k invc invc'. k < n \<Longrightarrow> P k invc \<Longrightarrow> field_step lines k invc = Inr invc' \<Longrightarrow> P (Suc k) invc'"
  shows "\<exists>invc. run_steps (field_step lines) [0 ..< n] empty_invoice = Inr invc \<and> P n invc"
proof (rule run_steps_upt_invariant [where I = P])
  show "P 0 empty_invoice" by (rule assms(1))
next
  fix k st
  assume k: "k < n" and p: "P k st"
  from field_step_total obtain st' where s: "field_step lines k st = Inr st'" by blast
  from assms(2) [OF k p s] s show "\<exists>st'. field_step lines k st = Inr st' \<and> P (Suc k) st'" by blast
qed

lemma body_unfold:
  assumes "run_steps (field_step (splitlines text)) [0 ..< length (splitlines text)] empty_invoice = Inr invc"
  shows "\<exists>its. extract_invoice_data_body text = Inr (invc\<lparr>line_items := Some its\<rparr>)"
proof -
  from item_pass_total obtain st where
    "run_steps (item_step (splitlines text)) [0 ..< length (splitlines text)] init_item_state = Inr st"
    by blast
  with assms have "extract_invoice_data_body text =
      Inr (invc\<lparr>line_items := Some (backfill_prices (net_prices st) (collected (close_item st)))\<rparr>)"
    by (simp add: extract_invoice_data_body_def Let_def)
  then show ?thesis by blast
qed

lemma body_total:
  "\<exists>invc its. extract_invoice_data_body text = Inr invc \<and> line_items invc = Some its"
proof -
  from field_pass_invariant [where P = "\<lambda>k invc. True"] obtain invc where
    "run_steps (field_step (splitlines text)) [0 ..< length (splitlines text)] empty_invoice = Inr invc"
    by blast
  from body_unfold [OF this] show ?thesis by auto
qed

section \<open>The invoice number read by the first pass\<close>

lemma rep_counts_digits:
  "rep_counts CDigit (Suc 0) None True s = rev [Suc 0 ..< Suc (length (takeWhile is_digit s))]"
  by (simp add: rep_counts_def cmem_CDigit_eq Let_def)

lemma match_at_digits:
  "match_at invoice_number_regex pos s =
     (if takeWhile is_digit s = [] then None
      else Some \<lparr>m_start = pos, m_text = takeWhile is_digit s, m_groups = []\<rparr>)"
proof (cases "takeWhile is_digit s = []")
  case True
  then show ?thesis
    by (simp add: match_at_def invoice_number_regex_def rep_counts_digits)
next
  case False
  define run where "run = length (takeWhile is_digit s)"
  from False have pos: "0 < run" by (simp add: run_def)
  then have up: "[Suc 0 ..< Suc run] = [Suc 0 ..< run] @ [run]"
    by (metis Suc_leI upt_Suc_append)
  have run_le: "run \<le> length s" unfolding run_def by (rule length_takeWhile_le)
  have tk: "take run s = takeWhile is_digit s"
    unfolding run_def by (metis append_eq_conv_conj takeWhile_dropWhile_id)
  have "rmatch invoice_number_regex s [] =
          (drop run s, []) # map (\<lambda>k. (drop k s, [])) (rev [Suc 0 ..< run])"
    using pos by (simp add: invoice_number_regex_def rep_counts_digits run_def [symmetric] up)
  then show ?thesis using False run_le tk
    by (simp add: match_at_def)
qed

lemma search_from_digits:
  "search_from invoice_number_regex pos s =
     (if list_ex is_digit s
      then Some \<lparr>m_start = pos + length (takeWhile (\<lambda>c. \<not> is_digit c) s),
                 m_text = first_digit_run s, m_groups = []\<rparr>
      else None)"
proof (induction s arbitrary: pos)
  case Nil
  then show ?case by (simp add: match_at_digits)
next
  case (Cons c cs)
  show ?case
  proof (cases "is_digit c")
    case True
    then show ?thesis by (simp add: match_at_digits first_digit_run_def)
  next
    case False
    then show ?thesis by (simp add: match_at_digits first_digit_run_def Cons.IH)
  qed
qed

lemma re_search_digits:
  "re_search invoice_number_regex s =
     (if list_ex is_digit s
      then Some \<lparr>m_start = length (takeWhile (\<lambda>c. \<not> is_digit c) s),
                 m_text = first_digit_run s, m_groups = []\<rparr>
      else None)"
  by (simp add: re_search_def search_from_digits)

lemma first_digit_run_digits: "list_all is_digit (first_digit_run s)"
  unfolding first_digit_run_def list_all_iff by (meson set_takeWhileD)

lemma first_digit_run_nonempty:
  assumes "list_ex is_digit s"
  shows "first_digit_run s \<noteq> []"
proof -
  from assms have "dropWhile (\<lambda>c. \<not> is_digit c) s \<noteq> []"
    by (auto simp: list_ex_iff dropWhile_eq_Nil_conv)
  then obtain d rest where d: "dropWhile (\<lambda>c. \<not> is_digit c) s = d # rest"
    by (cases "dropWhile (\<lambda>c. \<not> is_digit c) s") auto
  then have "is_digit d" by (metis hd_dropWhile list.sel(1) list.distinct(1))
  with d show ?thesis by (simp add: first_digit_run_def)
qed

lemma field_step_sets_invoice_number:
  assumes "field_step lines i invc = Inr invc'"
  shows "map_of (scalars invc') ''invoice_number'' =
     (if is_invoice_number_line lines i \<and> list_ex is_digit (combined_text lines i)
      then Some (PStr (first_digit_run (combined_text lines i)))
      else map_of (scalars invc) ''invoice_number'')"
  using field_step_invoice_number [OF assms]
  by (simp add: re_search_digits mgroup_def)

lemma field_pass_invoice_number:
  "\<exists>invc. run_steps (field_step lines) [0 ..< n] empty_invoice = Inr invc \<and>
          map_of (scalars invc) ''invoice_number'' = invoice_number_after lines n"
proof (rule field_pass_invariant
    [where P = "\<lambda>k invc. map_of (scalars invc) ''invoice_number'' = invoice_number_after lines k"])
  show "map_of (scalars empty_invoice) ''invoice_number'' = invoice_number_after lines 0"
    by (simp add: empty_invoice_def)
next
  fix k invc invc'
  assume "map_of (scalars invc) ''invoice_number'' = invoice_number_after lines k"
    and "field_step lines k invc = Inr invc'"
  then show "map_of (scalars invc') ''invoice_number'' = invoice_number_after lines (Suc k)"
    by (simp add: field_step_sets_invoice_number)
qed

lemma invoice_number_after_last:
  assumes "i < n" "is_invoice_number_line lines i" "list_ex is_digit (combined_text lines i)"
  shows "\<exists>j. i \<le> j \<and> j < n \<and> is_invoice_number_line lines j \<and>
             list_ex is_digit (combined_text lines j) \<and>
             (\<forall>j'. j < j' \<and> j' < n \<longrightarrow>
                \<not> (is_invoice_number_line lines j' \<and> list_ex is_digit (combined_text lines j'))) \<and>
             invoice_number_after lines n = Some (PStr (first_digit_run (combined_text lines j)))"
  using assms(1)
proof (induction n)
  case 0
  then show ?case by simp
next
  case (Suc n)
  show ?case
  proof (cases "is_invoice_number_line lines n \<and> list_ex is_digit (combined_text lines n)")
    case True
    with Suc.prems show ?thesis
      by (intro exI [of _ n]) auto
  next
    case False
    with assms(2,3) have "i \<noteq> n" by auto
    with Suc.prems have "i < n" by simp
    from Suc.IH [OF this] obtain j where j: "i \<le> j" "j < n" "is_invoice_number_line lines j"
      "list_ex is_digit (combined_text lines j)"
      "\<forall>j'. j < j' \<and> j' < n \<longrightarrow>
         \<not> (is_invoice_number_line lines j' \<and> list_ex is_digit (combined_text lines j'))"
      "invoice_number_after lines n = Some (PStr (first_digit_run (combined_text lines j)))"
      by blast
    from j(5) False have "\<forall>j'. j < j' \<and> j' < Suc n \<longrightarrow>
         \<not> (is_invoice_number_line lines j' \<and> list_ex is_digit (combined_text lines j'))"
      by (metis less_Suc_eq)
    with j False show ?thesis by (intro exI [of _ j]) auto
  qed
qed

lemma extract_scalars:
  assumes "run_steps (field_step (splitlines text)) [0 ..< length (splitlines text)] empty_invoice = Inr invc"
  shows "scalars (extract_invoice_data text) = scalars invc"
proof -
  from body_unfold [OF assms] obtain its where
    "extract_invoice_data_body text = Inr (invc\<lparr>line_items := Some its\<rparr>)" by blast
  then show ?thesis by (simp add: extract_invoice_data_def)
qed
section \<open>Properties of the analyzer\<close>

lemma missing_fields_Nil_iff:
  "missing_fields invc = [] \<longleftrightarrow> list_all (has_field invc) required_fields"
  by (simp add: missing_fields_def filter_empty_conv list_all_iff)

lemma has_field_not_empty: "has_field invc k \<Longrightarrow> invc \<noteq> empty_invoice"
  by (auto simp: has_field_def empty_invoice_def)

lemma high_price_loop_issues:
  "high_price_loop fmt items issues = Inr issues' \<Longrightarrow>
   \<exists>more. issues' = issues @ more \<and> (\<forall>m \<in> set more. \<exists>p d. m = high_price_msg fmt p d)"
proof (induction items arbitrary: issues)
  case Nil
  then show ?case by simp
next
  case (Cons item items)
  show ?case
  proof (cases "unit_price item")
    case (Num p)
    show ?thesis
    proof (cases "p \<noteq> 0 \<and> p > 100")
      case True
      with Cons.prems Num obtain d where d: "description item = Some d"
        and run: "high_price_loop fmt items (issues @ [high_price_msg fmt p d]) = Inr issues'"
        by (auto split: option.splits)
      from Cons.IH [OF run] obtain more where
        "issues' = (issues @ [high_price_msg fmt p d]) @ more"
        "\<forall>m \<in> set more. \<exists>p d. m = high_price_msg fmt p d" by blast
      then show ?thesis
        by (intro exI [of _ "high_price_msg fmt p d # more"]) auto
    next
      case False
      with Cons.prems Num have "high_price_loop fmt items issues = Inr issues'" by auto
      from Cons.IH [OF this] show ?thesis .
    qed
  next
    case Absent
    with Cons.prems have "high_price_loop fmt items issues = Inr issues'" by simp
    from Cons.IH [OF this] show ?thesis .
  next
    case Null
    with Cons.prems have "high_price_loop fmt items issues = Inr issues'" by simp
    from Cons.IH [OF this] show ?thesis .
  qed
qed

lemma anomaly_detection_issues:
  "anomaly_detection forest items invc issues = Inr (invc', issues') \<Longrightarrow>
   warnings invc' = warnings invc \<and> scalars invc' = scalars invc \<and> line_items invc' = line_items invc \<and>
   (issues' = issues \<or> issues' = issues @ [ml_msg])"
  by (auto simp: anomaly_detection_def Let_def split: if_splits)

lemma line_item_analysis_issues:
  assumes "line_item_analysis fmt forest invc issues = Inr (invc', issues')"
  shows "warnings invc' = warnings invc \<and> scalars invc' = scalars invc \<and> line_items invc' = line_items invc \<and>
         (\<exists>more. issues' = issues @ more \<and>
            (\<forall>m \<in> set more. m = ml_msg \<or> (\<exists>p d. m = high_price_msg fmt p d)))"
proof (cases "line_items invc")
  case None
  with assms show ?thesis by (simp add: line_item_analysis_def)
next
  case (Some items)
  show ?thesis
  proof (cases items)
    case Nil
    with assms Some show ?thesis by (simp add: line_item_analysis_def)
  next
    case (Cons item rest)
    with assms Some obtain mid where
      hp: "high_price_loop fmt items issues = Inr mid" and
      ad: "anomaly_detection forest items invc mid = Inr (invc', issues')"
      by (auto simp: line_item_analysis_def split: sum.splits)
    from high_price_loop_issues [OF hp] obtain m1 where
      m1: "mid = issues @ m1" "\<forall>m \<in> set m1. \<exists>p d. m = high_price_msg fmt p d" by blast
    from anomaly_detection_issues [OF ad] have
      keep: "warnings invc' = warnings invc \<and> scalars invc' = scalars invc \<and> line_items invc' = line_items invc"
      and step: "issues' = mid \<or> issues' = mid @ [ml_msg]" by auto
    from step show ?thesis
    proof
      assume "issues' = mid"
      with m1 keep show ?thesis by (intro conjI exI [of _ m1]) auto
    next
      assume "issues' = mid @ [ml_msg]"
      with m1 keep show ?thesis by (intro conjI exI [of _ "m1 @ [ml_msg]"]) auto
    qed
  qed
qed

lemma outside_msg_distinct:
  "outside_msg \<noteq> ml_msg" "outside_msg \<noteq> high_price_msg fmt p d"
  by (simp_all add: outside_msg_def ml_msg_def high_price_msg_def)

lemma strptime_in_window:
  "strptime (PStr ''02/15/2023'') = Inr \<lparr>year = 2023, month = 2, day = 15\<rparr>"
  by code_simp

lemma strptime_after_window:
  "strptime (PStr ''02/15/2024'') = Inr \<lparr>year = 2024, month = 2, day = 15\<rparr>"
  by code_simp

lemma date_validation_in_window:
  "map_of (scalars invc) ''invoice_date'' = Some (PStr ''02/15/2023'') \<Longrightarrow>
   date_validation invc (Some window_start) (Some window_end) = []"
  by (simp add: date_validation_def strptime_in_window date_le_def window_start_def window_end_def)

lemma date_validation_after_window:
  "map_of (scalars invc) ''invoice_date'' = Some (PStr ''02/15/2024'') \<Longrightarrow>
   date_validation invc (Some window_start) (Some window_end) = [outside_msg]"
  by (simp add: date_validation_def strptime_after_window date_le_def window_start_def window_end_def)

lemma date_validation_unparsable:
  "map_of (scalars invc) ''invoice_date'' = Some v \<Longrightarrow> strptime v = Inl e \<Longrightarrow>
   date_validation invc (Some cs) (Some ce) = [unparsable_msg]"
  by (simp add: date_validation_def)

lemma analyze_complete_fields:
  assumes "list_all (has_field invc) required_fields"
  shows "analyze_invoice_for_fraud fmt forest invc cs ce =
     (case line_item_analysis fmt forest invc (date_validation invc cs ce) of
        Inl e \<Rightarrow> Inl e
      | Inr (invc', issues) \<Rightarrow> Inr (final_result invc' issues))"
proof -
  from assms have "has_field invc ''invoice_number''" by (simp add: required_fields_def)
  then have "invc \<noteq> empty_invoice" by (rule has_field_not_empty)
  moreover from assms have "missing_fields invc = []" by (simp add: missing_fields_Nil_iff)
  ultimately show ?thesis by (simp add: analyze_invoice_for_fraud_def)
qed

lemma analyze_returns_shape:
  assumes six: "list_all (has_field invc) required_fields"
    and ret: "analyze_invoice_for_fraud fmt forest invc cs ce = Inr r"
  shows "\<exists>invc' more. a_invoice r = Some invc' \<and>
           (\<forall>m \<in> set more. m = ml_msg \<or> (\<exists>p d. m = high_price_msg fmt p d)) \<and>
           warnings_of invc' =
             (if date_validation invc cs ce @ more = [] then warnings_of invc
              else date_validation invc cs ce @ more)"
proof -
  from ret obtain mid issues where
    lia: "line_item_analysis fmt forest invc (date_validation invc cs ce) = Inr (mid, issues)"
    and r: "r = final_result mid issues"
    by (auto simp: analyze_complete_fields [OF six] split: sum.splits)
  from line_item_analysis_issues [OF lia] obtain more where
    keep: "warnings mid = warnings invc" and
    more: "issues = date_validation invc cs ce @ more"
      "\<forall>m \<in> set more. m = ml_msg \<or> (\<exists>p d. m = high_price_msg fmt p d)" by blast
  show ?thesis
  proof (intro exI conjI)
    show "a_invoice r = Some (if issues \<noteq> [] then mid\<lparr>warnings := Some issues\<rparr> else mid)"
      by (simp add: r final_result_def)
    show "\<forall>m \<in> set more. m = ml_msg \<or> (\<exists>p d. m = high_price_msg fmt p d)" by (rule more(2))
    show "warnings_of (if issues \<noteq> [] then mid\<lparr>warnings := Some issues\<rparr> else mid) =
      (if date_validation invc cs ce @ more = [] then warnings_of invc
       else date_validation invc cs ce @ more)"
      using keep more(1) by (simp add: warnings_of_def)
  qed
qed


text \<open>
  C1. The claim: the analyzer never propagates an exception, also when line items lack a
  numeric unit price or quantity. The code does not keep it: for \<open>mixed_invoice\<close>, whose
  second item has \<^verbatim>\<open>unit_price = None\<close>, the frame of complete rows is shorter than the frame
  of all items, the assignment of the score column raises \<open>ValueError\<close>, and the analyzer has
  no handler for it. This holds for every outlier model, number format and contract window.
\<close>

theorem mixed_line_items_raise:
  "analyze_invoice_for_fraud fmt forest mixed_invoice cs ce = Inl ValueError"
  by (simp add: analyze_invoice_for_fraud_def mixed_invoice_def empty_invoice_def
      missing_fields_def required_fields_def has_field_def sample_fields_def
      line_item_analysis_def anomaly_detection_def numeric_rows_def List.map_filter_def)

text \<open>
  C2 (as amended). For every record that is not the empty dict and lacks at least one of the
  six required keys, the analyzer returns status \<open>warning\<close>, a message that lists the missing
  keys in the order of \<open>required_fields\<close>, and the record exactly as it was given: the result
  does not depend on the outlier model or the contract window, and no warnings are attached.
  The empty dict is answered before the check, with status \<open>error\<close>.
\<close>

theorem missing_field_short_circuit:
  assumes "field \<in> set required_fields" and "\<not> has_field invc field"
    and "invc \<noteq> empty_invoice"
  shows "field \<in> set (missing_fields invc) \<and>
         analyze_invoice_for_fraud fmt forest invc contract_start contract_end =
           Inr \<lparr>a_status = ''warning'',
                a_message = ''Missing required fields: '' @ join '', '' (missing_fields invc),
                a_invoice = Some invc\<rparr>"
proof -
  from assms(1,2) have "field \<in> set (missing_fields invc)"
    by (simp add: missing_fields_def)
  moreover from this have "missing_fields invc \<noteq> []" by auto
  ultimately show ?thesis using assms(3) by (simp add: analyze_invoice_for_fraud_def)
qed

theorem missing_field_short_circuit_witness:
  "''tax_id'' \<in> set required_fields \<and> \<not> has_field partial_invoice ''tax_id'' \<and>
   partial_invoice \<noteq> empty_invoice \<and>
   analyze_invoice_for_fraud fmt0 forest0 partial_invoice (Some window_start) (Some window_end) =
     Inr \<lparr>a_status = ''warning'',
          a_message = ''Missing required fields: tax_id, bank_account'',
          a_invoice = Some partial_invoice\<rparr>"
proof -
  have a: "''tax_id'' \<in> set required_fields" by (simp add: required_fields_def)
  have b: "\<not> has_field partial_invoice ''tax_id''"
    by (simp add: has_field_def partial_invoice_def)
  have c: "partial_invoice \<noteq> empty_invoice"
    by (simp add: partial_invoice_def empty_invoice_def)
  have m: "missing_fields partial_invoice = [''tax_id'', ''bank_account'']"
    by (simp add: missing_fields_def required_fields_def has_field_def partial_invoice_def)
  from missing_field_short_circuit [OF a b c, of fmt0 forest0 "Some window_start" "Some window_end"]
  show ?thesis using a b c by (simp add: m join_def)
qed

theorem empty_record_is_error:
  "''tax_id'' \<in> set required_fields \<and> \<not> has_field empty_invoice ''tax_id'' \<and>
   analyze_invoice_for_fraud fmt0 forest0 empty_invoice None None =
     Inr \<lparr>a_status = ''error'', a_message = ''Invalid invoice data'', a_invoice = None\<rparr>"
  by (simp add: analyze_invoice_for_fraud_def required_fields_def has_field_def empty_invoice_def)

text \<open>
  C10. The check for missing fields tests key membership only: when the six required keys
  are present, whatever their values (the empty string and \<^verbatim>\<open>None\<close> included), no field is
  reported missing and the result is that of date validation followed by line-item analysis.
\<close>

theorem membership_not_truthiness:
  assumes "list_all (has_field invc) required_fields"
  shows "missing_fields invc = [] \<and>
         analyze_invoice_for_fraud fmt forest invc contract_start contract_end =
           (case line_item_analysis fmt forest invc
                   (date_validation invc contract_start contract_end) of
              Inl e \<Rightarrow> Inl e
            | Inr (invc', issues) \<Rightarrow> Inr (final_result invc' issues))"
  using assms analyze_complete_fields [OF assms] by (simp add: missing_fields_Nil_iff)

theorem membership_not_truthiness_witness:
  "list_all (has_field (sample_invoice ''02/15/2024'')) required_fields \<and>
   map_of (scalars (sample_invoice ''02/15/2024'')) ''invoice_number'' = Some (PStr []) \<and>
   map_of (scalars (sample_invoice ''02/15/2024'')) ''supplier_name'' = Some PNone \<and>
   analyze_invoice_for_fraud fmt0 forest0 (sample_invoice ''02/15/2024'')
       (Some window_start) (Some window_end) =
     Inr \<lparr>a_status = ''warning'', a_message = ''Analysis completed with warnings'',
          a_invoice = Some ((sample_invoice ''02/15/2024'')\<lparr>warnings := Some [outside_msg]\<rparr>)\<rparr>"
proof -
  have six: "list_all (has_field (sample_invoice ''02/15/2024'')) required_fields"
    by (simp add: required_fields_def has_field_def sample_invoice_def sample_fields_def)
  have d: "date_validation (sample_invoice ''02/15/2024'') (Some window_start) (Some window_end)
             = [outside_msg]"
    by (rule date_validation_after_window) (simp add: sample_invoice_def sample_fields_def)
  have l: "line_item_analysis fmt0 forest0 (sample_invoice ''02/15/2024'') [outside_msg]
             = Inr (sample_invoice ''02/15/2024'', [outside_msg])"
    by (simp add: line_item_analysis_def sample_invoice_def)
  from membership_not_truthiness [OF six, of fmt0 forest0 "Some window_start" "Some window_end"]
  have "analyze_invoice_for_fraud fmt0 forest0 (sample_invoice ''02/15/2024'')
          (Some window_start) (Some window_end) =
        Inr (final_result (sample_invoice ''02/15/2024'') [outside_msg])"
    by (simp add: d l)
  then show ?thesis using six
    by (simp add: final_result_def sample_invoice_def sample_fields_def)
qed

text \<open>
  C6 (as amended). For every record that holds the six required keys, with the contract
  window 2023-01-01 to 2023-12-31, whenever the analyzer returns a result: if
  \<^verbatim>\<open>invoice_date\<close> is \<^verbatim>\<open>02/15/2023\<close>, the returned record carries the date-window warning only if
  the record already carried it on entry; if \<^verbatim>\<open>invoice_date\<close> is \<^verbatim>\<open>02/15/2024\<close>, the warning is
  among the returned record's warnings; and if \<^verbatim>\<open>invoice_date\<close> is a value that \<^verbatim>\<open>strptime\<close>
  rejects, the warning that the date cannot be parsed is among them.
\<close>

theorem date_window_warnings:
  assumes six: "list_all (has_field invc) required_fields"
    and ret: "analyze_invoice_for_fraud fmt forest invc (Some window_start) (Some window_end) = Inr r"
  shows "\<exists>invc'. a_invoice r = Some invc' \<and>
     (map_of (scalars invc) ''invoice_date'' = Some (PStr ''02/15/2023'') \<longrightarrow>
        outside_msg \<notin> set (warnings_of invc) \<longrightarrow> outside_msg \<notin> set (warnings_of invc')) \<and>
     (map_of (scalars invc) ''invoice_date'' = Some (PStr ''02/15/2024'') \<longrightarrow>
        outside_msg \<in> set (warnings_of invc')) \<and>
     (\<forall>v e. map_of (scalars invc) ''invoice_date'' = Some v \<longrightarrow> strptime v = Inl e \<longrightarrow>
        unparsable_msg \<in> set (warnings_of invc'))"
proof -
  from analyze_returns_shape [OF six ret] obtain invc' more where
    inv: "a_invoice r = Some invc'" and
    more: "\<forall>m \<in> set more. m = ml_msg \<or> (\<exists>p d. m = high_price_msg fmt p d)" and
    w: "warnings_of invc' =
          (if date_validation invc (Some window_start) (Some window_end) @ more = []
           then warnings_of invc
           else date_validation invc (Some window_start) (Some window_end) @ more)"
    by blast
  from more have no_outside: "outside_msg \<notin> set more"
    using outside_msg_distinct by metis
  have a: "outside_msg \<notin> set (warnings_of invc')"
    if "map_of (scalars invc) ''invoice_date'' = Some (PStr ''02/15/2023'')"
      "outside_msg \<notin> set (warnings_of invc)"
    using that no_outside w by (simp add: date_validation_in_window split: if_splits)
  have b: "outside_msg \<in> set (warnings_of invc')"
    if "map_of (scalars invc) ''invoice_date'' = Some (PStr ''02/15/2024'')"
    using that w by (simp add: date_validation_after_window)
  have c: "unparsable_msg \<in> set (warnings_of invc')"
    if "map_of (scalars invc) ''invoice_date'' = Some v" "strptime v = Inl e" for v e
    using that w by (simp add: date_validation_unparsable)
  from inv a b c show ?thesis by blast
qed

theorem date_window_warnings_witness:
  "list_all (has_field (sample_invoice ''02/15/2024'')) required_fields \<and>
   analyze_invoice_for_fraud fmt0 forest0 (sample_invoice ''02/15/2024'')
       (Some window_start) (Some window_end) =
     Inr (final_result (sample_invoice ''02/15/2024'') [outside_msg]) \<and>
   (\<exists>invc'. a_invoice (final_result (sample_invoice ''02/15/2024'') [outside_msg]) = Some invc' \<and>
            outside_msg \<in> set (warnings_of invc'))"
proof -
  have six: "list_all (has_field (sample_invoice ''02/15/2024'')) required_fields"
    by (simp add: required_fields_def has_field_def sample_invoice_def sample_fields_def)
  have d: "map_of (scalars (sample_invoice ''02/15/2024'')) ''invoice_date'' =
             Some (PStr ''02/15/2024'')"
    by (simp add: sample_invoice_def sample_fields_def)
  have l: "line_item_analysis fmt0 forest0 (sample_invoice ''02/15/2024'') [outside_msg]
             = Inr (sample_invoice ''02/15/2024'', [outside_msg])"
    by (simp add: line_item_analysis_def sample_invoice_def)
  have ret: "analyze_invoice_for_fraud fmt0 forest0 (sample_invoice ''02/15/2024'')
               (Some window_start) (Some window_end) =
             Inr (final_result (sample_invoice ''02/15/2024'') [outside_msg])"
    by (simp add: analyze_complete_fields [OF six] date_validation_after_window [OF d] l)
  from date_window_warnings [OF six ret] d six ret show ?thesis by blast
qed

theorem stale_date_warning_kept:
  "list_all (has_field stale_invoice) required_fields \<and>
   map_of (scalars stale_invoice) ''invoice_date'' = Some (PStr ''02/15/2023'') \<and>
   analyze_invoice_for_fraud fmt0 forest0 stale_invoice (Some window_start) (Some window_end) =
     Inr \<lparr>a_status = ''success'', a_message = ''No issues detected'',
          a_invoice = Some stale_invoice\<rparr> \<and>
   outside_msg \<in> set (warnings_of stale_invoice)"
proof -
  have six: "list_all (has_field stale_invoice) required_fields"
    by (simp add: required_fields_def has_field_def stale_invoice_def sample_invoice_def
        sample_fields_def)
  have d: "map_of (scalars stale_invoice) ''invoice_date'' = Some (PStr ''02/15/2023'')"
    by (simp add: stale_invoice_def sample_invoice_def sample_fields_def)
  have l: "line_item_analysis fmt0 forest0 stale_invoice [] = Inr (stale_invoice, [])"
    by (simp add: line_item_analysis_def stale_invoice_def sample_invoice_def)
  have "analyze_invoice_for_fraud fmt0 forest0 stale_invoice (Some window_start) (Some window_end)
          = Inr (final_result stale_invoice [])"
    by (simp add: analyze_complete_fields [OF six] date_validation_in_window [OF d] l)
  moreover have "outside_msg \<in> set (warnings_of stale_invoice)"
    by (simp add: stale_invoice_def warnings_of_def)
  ultimately show ?thesis using six d by (simp add: final_result_def)
qed

section \<open>The regex fallback never raises\<close>


lemma sets_group_lit: "\<not> sets_group n (lit s)"
  by (induction s) (simp_all add: lit_def)


lemma sets_group_quoted_key: "\<not> sets_group n (quoted_key key)"
  by (simp add: quoted_key_def seqs_def spaces_def sets_group_lit)


lemma sets_group_number_shape: "\<not> sets_group n number_shape"
  by (simp add: number_shape_def seqs_def)










section \<open>Properties of the heuristic extractor\<close>

lemma probe_window:
  assumes "i < length lines"
  shows "map (\<lambda>j. lines ! j) [Suc i ..< min (i + 4) (length lines)] = take 3 (drop (Suc i) lines)"
proof (rule nth_equalityI)
  show "length (map (\<lambda>j. lines ! j) [Suc i ..< min (i + 4) (length lines)]) =
        length (take 3 (drop (Suc i) lines))"
    using assms by auto
next
  fix k
  assume "k < length (map (\<lambda>j. lines ! j) [Suc i ..< min (i + 4) (length lines)])"
  then show "map (\<lambda>j. lines ! j) [Suc i ..< min (i + 4) (length lines)] ! k =
             take 3 (drop (Suc i) lines) ! k"
    using assms by (simp add: min_def split: if_splits)
qed

lemma total_match_window:
  assumes "i < length lines"
  shows "total_match lines i = probe_total (take 4 (drop i lines))"
proof -
  have "take 4 (drop i lines) = lines ! i # take 3 (drop (Suc i) lines)"
    using assms by (simp add: Cons_nth_drop_Suc [symmetric])
  then show ?thesis
    by (simp add: total_match_def probe_window [OF assms] split: option.splits)
qed

lemma currency_token_total_shape:
  assumes "w \<in> lang total_shape"
  shows "currency_token w"
proof -
  from total_shape_lang [OF assms] obtain ds where
    ds: "list_all is_digit ds" "1 \<le> length ds" "length ds \<le> 3" and
    w: "w = ds \<or> (\<exists>sep fr. w = ds @ sep # fr \<and>
              (sep = CHR ''.'' \<or> sep = CHR '','') \<and> list_all is_digit fr \<and> length fr = 2)"
    by blast
  from w show ?thesis
  proof
    assume eq: "w = ds"
    from ds(1) have tw: "takeWhile is_digit ds = ds" and dw: "dropWhile is_digit ds = []"
      by (simp_all add: list_all_iff)
    show ?thesis unfolding currency_token_def Let_def eq tw dw using ds by simp
  next
    assume "\<exists>sep fr. w = ds @ sep # fr \<and>
              (sep = CHR ''.'' \<or> sep = CHR '','') \<and> list_all is_digit fr \<and> length fr = 2"
    then obtain sep fr where w: "w = ds @ sep # fr" and sep: "sep = CHR ''.'' \<or> sep = CHR '',''"
      and fr: "list_all is_digit fr" "length fr = 2" by blast
    from sep have nd: "\<not> is_digit sep" by (auto simp: is_digit_def)
    from ds(1) nd have tw: "takeWhile is_digit w = ds" and dw: "dropWhile is_digit w = sep # fr"
      unfolding w by (simp_all add: list_all_iff)
    show ?thesis unfolding currency_token_def Let_def tw dw using ds sep fr by simp
  qed
qed

lemma field_pass_total_amount:
  "\<exists>invc. run_steps (field_step lines) [0 ..< n] empty_invoice = Inr invc \<and>
          (\<forall>v. map_of (scalars invc) ''total_amount'' = Some v \<longrightarrow>
               (\<exists>x. v = PNum x \<and> 0 \<le> x \<and> x < 1000))"
proof (rule field_pass_invariant
    [where P = "\<lambda>k invc. \<forall>v. map_of (scalars invc) ''total_amount'' = Some v \<longrightarrow>
                              (\<exists>x. v = PNum x \<and> 0 \<le> x \<and> x < 1000)"])
  show "\<forall>v. map_of (scalars empty_invoice) ''total_amount'' = Some v \<longrightarrow>
            (\<exists>x. v = PNum x \<and> 0 \<le> x \<and> x < 1000)"
    by (simp add: empty_invoice_def)
next
  fix k invc invc'
  assume inv: "\<forall>v. map_of (scalars invc) ''total_amount'' = Some v \<longrightarrow>
                 (\<exists>x. v = PNum x \<and> 0 \<le> x \<and> x < 1000)"
    and step: "field_step lines k invc = Inr invc'"
  from field_step_total_amount [OF step]
  show "\<forall>v. map_of (scalars invc') ''total_amount'' = Some v \<longrightarrow>
            (\<exists>x. v = PNum x \<and> 0 \<le> x \<and> x < 1000)"
  proof
    assume "map_of (scalars invc') ''total_amount'' = map_of (scalars invc) ''total_amount''"
    with inv show ?thesis by simp
  next
    assume "\<exists>m x. total_match lines k = Some m \<and> py_float (replace_comma (mgroup m 1)) = Inr x \<and>
                  map_of (scalars invc') ''total_amount'' = Some (PNum x)"
    then obtain m x where m: "total_match lines k = Some m"
      and x: "py_float (replace_comma (mgroup m 1)) = Inr x"
      and v: "map_of (scalars invc') ''total_amount'' = Some (PNum x)" by blast
    from total_match_float [OF m] x have "0 \<le> x \<and> x < 1000" by auto
    with v show ?thesis by simp
  qed
qed

lemma py_float_token_value:
  assumes "w \<in> lang total_shape"
  shows "py_float (replace_comma w) = Inr (token_value w)"
proof -
  from total_shape_lang [OF assms] obtain ds where
    ds: "list_all is_digit ds" "1 \<le> length ds" "length ds \<le> 3" and
    w: "w = ds \<or> (\<exists>sep fr. w = ds @ sep # fr \<and>
              (sep = CHR ''.'' \<or> sep = CHR '','') \<and> list_all is_digit fr \<and> length fr = 2)"
    by blast
  from ds(2) have ne: "ds \<noteq> []" by auto
  from w show ?thesis
  proof
    assume eq: "w = ds"
    from ds(1) have tw: "takeWhile is_digit ds = ds" and dw: "dropWhile is_digit ds = []"
      by (simp_all add: list_all_iff)
    have "token_value ds = real (nat_of_digits ds)"
      unfolding token_value_def Let_def tw dw by simp
    with py_float_digits [OF ds(1) ne] replace_comma_digits [OF ds(1)] eq
    show ?thesis by simp
  next
    assume "\<exists>sep fr. w = ds @ sep # fr \<and>
              (sep = CHR ''.'' \<or> sep = CHR '','') \<and> list_all is_digit fr \<and> length fr = 2"
    then obtain sep fr where eq: "w = ds @ sep # fr"
      and sep: "sep = CHR ''.'' \<or> sep = CHR '',''"
      and fr: "list_all is_digit fr" "length fr = 2" by blast
    from sep have nd: "\<not> is_digit sep" by (auto simp: is_digit_def)
    from ds(1) nd have tw: "takeWhile is_digit w = ds" and dw: "dropWhile is_digit w = sep # fr"
      unfolding eq by (simp_all add: list_all_iff)
    have tv: "token_value w = real (nat_of_digits ds) + real (nat_of_digits fr) / 100"
      unfolding token_value_def Let_def tw dw by simp
    have "replace_comma [sep] = ''.''" using sep by (auto simp: replace_comma_def)
    then have "replace_comma (sep # fr) = CHR ''.'' # fr"
      using replace_comma_append [of "[sep]" fr] replace_comma_digits [OF fr(1)] by simp
    then have r: "replace_comma w = ds @ CHR ''.'' # fr"
      unfolding eq by (simp add: replace_comma_append replace_comma_digits [OF ds(1)])
    from py_float_decimal [OF ds(1) ne fr(1)] fr(2) tv r show ?thesis by simp
  qed
qed

lemma token_value_bounds:
  assumes "w \<in> lang total_shape"
  shows "0 \<le> token_value w \<and> token_value w < 1000"
  using py_float_total [OF assms] py_float_token_value [OF assms] by auto

lemma total_regex_at_digit:
  assumes "is_digit d"
  shows "match_at total_regex pos (d # cs) \<noteq> None"
proof -
  from assms have nd: "d \<noteq> CHR ''$''" and ns: "\<not> is_space d"
    by (auto simp: is_digit_def is_space_def)
  define run where "run = length (takeWhile is_digit (d # cs))"
  from assms have pos: "0 < run" by (simp add: run_def)
  have "rep_counts CDigit (Suc 0) (Some 3) True (d # cs) \<noteq> []"
    using assms by (simp add: rep_counts_def cmem_CDigit_eq Let_def)
  then obtain k ks where k: "rep_counts CDigit (Suc 0) (Some 3) True (d # cs) = k # ks"
    by (cases "rep_counts CDigit (Suc 0) (Some 3) True (d # cs)") auto
  have "rmatch total_shape (d # cs) [] \<noteq> []"
    by (simp add: total_shape_def k)
  then obtain s' caps' xs where x: "rmatch total_shape (d # cs) [] = (s', caps') # xs"
    by (cases "rmatch total_shape (d # cs) []") auto
  have "rmatch total_regex (d # cs) [] \<noteq> []"
    using nd ns by (simp add: total_regex_def seqs_def x)
  then show ?thesis by (simp add: match_at_def split: list.splits)
qed

lemma search_from_total_digit:
  "list_ex is_digit s \<Longrightarrow> search_from total_regex pos s \<noteq> None"
proof (induction s arbitrary: pos)
  case Nil
  then show ?case by simp
next
  case (Cons c cs)
  show ?case
  proof (cases "match_at total_regex pos (c # cs)")
    case (Some m)
    then show ?thesis by simp
  next
    case None
    with total_regex_at_digit [of c pos cs] have "\<not> is_digit c" by auto
    with Cons.prems have "list_ex is_digit cs" by simp
    from Cons.IH [OF this] None show ?thesis by simp
  qed
qed

lemma total_shape_has_digit:
  assumes "w \<in> lang total_shape"
  shows "list_ex is_digit w"
proof -
  from total_shape_lang [OF assms] obtain ds where
    ds: "list_all is_digit ds" "1 \<le> length ds" and
    w: "w = ds \<or> (\<exists>sep fr. w = ds @ sep # fr \<and>
              (sep = CHR ''.'' \<or> sep = CHR '','') \<and> list_all is_digit fr \<and> length fr = 2)"
    by blast
  from ds obtain d ds' where "ds = d # ds'" "is_digit d" by (cases ds) auto
  with w show ?thesis by auto
qed

lemma total_regex_search_iff:
  "re_search total_regex s = None \<longleftrightarrow> \<not> list_ex is_digit s"
proof
  assume "re_search total_regex s = None"
  with search_from_total_digit [of s 0] show "\<not> list_ex is_digit s"
    by (auto simp: re_search_def)
next
  assume nd: "\<not> list_ex is_digit s"
  show "re_search total_regex s = None"
  proof (cases "re_search total_regex s")
    case None
    then show ?thesis .
  next
    case (Some m)
    from re_search_sound [OF Some] obtain pre rest where s: "s = pre @ m_text m @ rest"
      and l: "m_text m \<in> lang total_regex" by blast
    from l have "m_text m \<in> lang (Seq (Opt (Cls (CChar CHR ''$'')))
                   (Seq (Opt (Cls CSpace)) (Seq (Grp 1 total_shape) Eps)))"
      by (simp add: total_regex_def seqs_def)
    then obtain a r1 where 1: "m_text m = a @ r1"
      and r1: "r1 \<in> lang (Seq (Opt (Cls CSpace)) (Seq (Grp 1 total_shape) Eps))"
      by (rule lang_SeqE)
    from r1 obtain b r2 where 2: "r1 = b @ r2" and r2: "r2 \<in> lang (Seq (Grp 1 total_shape) Eps)"
      by (rule lang_SeqE)
    from r2 obtain g r3 where 3: "r2 = g @ r3" and g: "g \<in> lang (Grp 1 total_shape)"
      by (rule lang_SeqE)
    from g have "g \<in> lang total_shape" by simp
    from total_shape_has_digit [OF this] have "list_ex is_digit g" .
    with s 1 2 3 have "list_ex is_digit s" by (auto simp: list_ex_iff)
    with nd show ?thesis by simp
  qed
qed


lemma field_step_sets_total:
  assumes "field_step lines i invc = Inr invc'" "i < length lines"
  shows "map_of (scalars invc') ''total_amount'' =
     (if total_branch lines i (has_field invc ''tax_id'') then
        (case probe_total (take 4 (drop i lines)) of
           Some m \<Rightarrow> Some (PNum (token_value (mgroup m 1)))
         | None \<Rightarrow> map_of (scalars invc) ''total_amount'')
      else map_of (scalars invc) ''total_amount'')"
proof (cases "total_branch lines i (has_field invc ''tax_id'')")
  case True
  then have step: "field_step lines i invc =
      (case total_match lines i of
         Some m \<Rightarrow>
           (case py_float (replace_comma (mgroup m 1)) of
              Inl e \<Rightarrow> Inl e
            | Inr x \<Rightarrow> Inr (set_field ''total_amount'' (PNum x) invc))
       | None \<Rightarrow> Inr invc)"
    by (auto simp: field_step_def total_branch_def before_tax_id_def)
  show ?thesis
  proof (cases "total_match lines i")
    case None
    with step assms True show ?thesis by (simp add: total_match_window)
  next
    case (Some m)
    from py_float_token_value [OF total_match_group [OF Some]]
    have "py_float (replace_comma (mgroup m 1)) = Inr (token_value (mgroup m 1))" .
    with step Some assms(1)
    have "invc' = set_field ''total_amount'' (PNum (token_value (mgroup m 1))) invc" by simp
    with Some assms(2) True show ?thesis by (simp add: total_match_window map_of_set_field)
  qed
next
  case False
  with assms(1) show ?thesis
    by (auto simp: field_step_def total_branch_def before_tax_id_def map_of_set_from_match
        map_of_set_field split: if_splits option.splits sum.splits)
qed

lemma field_step_total_branch:
  assumes "i < length lines" "total_branch lines i (has_field invc ''tax_id'')"
  shows "field_step lines i invc =
     Inr (case probe_total (take 4 (drop i lines)) of
            Some m \<Rightarrow> set_field ''total_amount'' (PNum (token_value (mgroup m 1))) invc
          | None \<Rightarrow> invc)"
proof -
  from assms(2) have step: "field_step lines i invc =
      (case total_match lines i of
         Some m \<Rightarrow>
           (case py_float (replace_comma (mgroup m 1)) of
              Inl e \<Rightarrow> Inl e
            | Inr x \<Rightarrow> Inr (set_field ''total_amount'' (PNum x) invc))
       | None \<Rightarrow> Inr invc)"
    by (auto simp: field_step_def total_branch_def before_tax_id_def)
  show ?thesis
  proof (cases "total_match lines i")
    case None
    with step assms(1) show ?thesis by (simp add: total_match_window)
  next
    case (Some m)
    from py_float_token_value [OF total_match_group [OF Some]]
    have "py_float (replace_comma (mgroup m 1)) = Inr (token_value (mgroup m 1))" .
    with step Some assms(1) show ?thesis by (simp add: total_match_window)
  qed
qed

lemma field_step_sets_tax_id:
  assumes "field_step lines i invc = Inr invc'"
  shows "has_field invc' ''tax_id'' =
     (has_field invc ''tax_id'' \<or>
      (\<not> before_tax_id lines i \<and> py_in ''tax id'' (line_clean lines i) \<and>
       re_search tax_id_regex (combined_text lines i) \<noteq> None))"
  using assms
  by (auto simp: field_step_def before_tax_id_def has_field_def map_of_set_from_match
      map_of_set_field split: if_splits option.splits sum.splits)

lemma field_pass_total_exact:
  assumes "n \<le> length lines"
  shows "\<exists>invc. run_steps (field_step lines) [0 ..< n] empty_invoice = Inr invc \<and>
          map_of (scalars invc) ''total_amount'' = total_amount_after lines n \<and>
          has_field invc ''tax_id'' = tax_id_after lines n"
proof (rule field_pass_invariant
    [where P = "\<lambda>k invc. map_of (scalars invc) ''total_amount'' = total_amount_after lines k \<and>
                          has_field invc ''tax_id'' = tax_id_after lines k"])
  show "map_of (scalars empty_invoice) ''total_amount'' = total_amount_after lines 0 \<and>
        has_field empty_invoice ''tax_id'' = tax_id_after lines 0"
    by (simp add: empty_invoice_def has_field_def)
next
  fix k invc invc'
  assume k: "k < n"
    and p: "map_of (scalars invc) ''total_amount'' = total_amount_after lines k \<and>
            has_field invc ''tax_id'' = tax_id_after lines k"
    and step: "field_step lines k invc = Inr invc'"
  from k assms have kl: "k < length lines" by simp
  from field_step_sets_total [OF step kl] p
  have 1: "map_of (scalars invc') ''total_amount'' = total_amount_after lines (Suc k)"
    by (simp split: option.splits)
  from field_step_sets_tax_id [OF step] p
  have 2: "has_field invc' ''tax_id'' = tax_id_after lines (Suc k)" by simp
  from 1 2 show "map_of (scalars invc') ''total_amount'' = total_amount_after lines (Suc k) \<and>
             has_field invc' ''tax_id'' = tax_id_after lines (Suc k)" by simp
qed

lemma total_amount_after_last:
  assumes "i < n" "total_branch lines i (tax_id_after lines i)"
    "probe_total (take 4 (drop i lines)) = Some m"
    "\<forall>j. i < j \<and> j < n \<longrightarrow>
       \<not> (total_branch lines j (tax_id_after lines j) \<and>
          probe_total (take 4 (drop j lines)) \<noteq> None)"
  shows "total_amount_after lines n = Some (PNum (token_value (mgroup m 1)))"
  using assms(1,4)
proof (induction n)
  case 0
  then show ?case by simp
next
  case (Suc n)
  show ?case
  proof (cases "i = n")
    case True
    with assms(2,3) show ?thesis by simp
  next
    case False
    with Suc.prems(1) have lt: "i < n" by simp
    from Suc.prems(2) have later: "\<forall>j. i < j \<and> j < n \<longrightarrow>
       \<not> (total_branch lines j (tax_id_after lines j) \<and>
          probe_total (take 4 (drop j lines)) \<noteq> None)" by simp
    from Suc.prems(2) lt have
      "\<not> (total_branch lines n (tax_id_after lines n) \<and>
          probe_total (take 4 (drop n lines)) \<noteq> None)" by simp
    then have "total_amount_after lines (Suc n) = total_amount_after lines n"
      by (auto split: option.splits)
    with Suc.IH [OF lt later] show ?thesis by simp
  qed
qed

lemma total_text_lines: "splitlines total_text = [''Total: 1234.56'']"
  by code_simp

lemma total_text_search:
  "re_search total_regex ''Total: 1234.56'' =
     Some \<lparr>m_start = 6, m_text = '' 123'', m_groups = [(1, ''123'')]\<rparr>"
  by code_simp

lemma total_text_after:
  "total_amount_after [''Total: 1234.56''] 1 = Some (PNum 123)"
  by code_simp

lemma probed_total_lines:
  "splitlines probed_total_text = [''Total'', ''due'', [], ''$ 76,08'', ''99'']"
  by code_simp

lemma probed_total_branch:
  "total_branch [''Total'', ''due'', [], ''$ 76,08'', ''99''] 0 (has_field empty_invoice ''tax_id'') \<and>
   total_branch [''Total'', ''due'', [], ''$ 76,08'', ''99''] 0
     (tax_id_after [''Total'', ''due'', [], ''$ 76,08'', ''99''] 0)"
  by code_simp

lemma probed_total_probe:
  "probe_total (take 4 (drop 0 [''Total'', ''due'', [], ''$ 76,08'', ''99''])) =
     Some \<lparr>m_start = 0, m_text = ''$ 76,08'', m_groups = [(1, ''76,08'')]\<rparr>"
  by code_simp

lemma probed_total_search:
  "re_search total_regex ''$ 76,08'' =
     Some \<lparr>m_start = 0, m_text = ''$ 76,08'', m_groups = [(1, ''76,08'')]\<rparr>"
  by code_simp

lemma probed_total_later:
  "list_all (\<lambda>j. \<not> (total_branch [''Total'', ''due'', [], ''$ 76,08'', ''99''] j
                       (tax_id_after [''Total'', ''due'', [], ''$ 76,08'', ''99''] j) \<and>
                    probe_total (take 4 (drop j [''Total'', ''due'', [], ''$ 76,08'', ''99''])) \<noteq> None))
     [1 ..< 5]"
  by code_simp

lemma probed_total_token:
  "mgroup \<lparr>m_start = 0, m_text = ''$ 76,08'', m_groups = [(1, ''76,08'')]\<rparr> 1 = ''76,08'' \<and>
   token_value ''76,08'' = 1902 / 25"
  by code_simp

text \<open>
  C7. The pattern for the total amount takes one to three digits, optionally a point or comma
  and two more digits (an optional \<^verbatim>\<open>$\<close> and an optional blank before them); it finds a token
  in every text that has a digit. The token is converted with the comma read as a point. A line
  that reaches the branch of the total is probed first, then at most the three lines after
  it, and the first token found becomes \<^verbatim>\<open>total_amount\<close>; the extractor returns the value
  set by the last such line. So whatever the text, a \<^verbatim>\<open>total_amount\<close> in the extracted record
  is a number below 1000: a printed total of 1000 or more without separators is never read in
  full.
\<close>

theorem total_amount_three_digit_cap:
  "map_of (scalars (extract_invoice_data text)) ''total_amount'' =
     total_amount_after (splitlines text) (length (splitlines text)) \<and>
   (map_of (scalars (extract_invoice_data text)) ''total_amount'' = Some v \<longrightarrow>
      (\<exists>x. v = PNum x \<and> 0 \<le> x \<and> x < 1000)) \<and>
   (i < length lines \<longrightarrow> total_branch lines i (has_field invc ''tax_id'') \<longrightarrow>
      total_match lines i = probe_total (take 4 (drop i lines)) \<and>
      field_step lines i invc =
        Inr (case probe_total (take 4 (drop i lines)) of
               Some m \<Rightarrow> set_field ''total_amount'' (PNum (token_value (mgroup m 1))) invc
             | None \<Rightarrow> invc)) \<and>
   (i < n \<longrightarrow> total_branch lines i (tax_id_after lines i) \<longrightarrow>
    probe_total (take 4 (drop i lines)) = Some m \<longrightarrow>
    (\<forall>j. i < j \<and> j < n \<longrightarrow>
       \<not> (total_branch lines j (tax_id_after lines j) \<and>
          probe_total (take 4 (drop j lines)) \<noteq> None)) \<longrightarrow>
      total_amount_after lines n = Some (PNum (token_value (mgroup m 1)))) \<and>
   ((re_search total_regex s = None) = (\<not> list_ex is_digit s)) \<and>
   (re_search total_regex s = Some m' \<longrightarrow>
      currency_token (mgroup m' 1) \<and>
      py_float (replace_comma (mgroup m' 1)) = Inr (token_value (mgroup m' 1)) \<and>
      0 \<le> token_value (mgroup m' 1) \<and> token_value (mgroup m' 1) < 1000)"
proof (intro conjI impI)
  from field_pass_total_exact [of "length (splitlines text)" "splitlines text"] obtain invc0 where
    run: "run_steps (field_step (splitlines text)) [0 ..< length (splitlines text)] empty_invoice
            = Inr invc0" and
    tot: "map_of (scalars invc0) ''total_amount'' =
            total_amount_after (splitlines text) (length (splitlines text))" by blast
  from tot show "map_of (scalars (extract_invoice_data text)) ''total_amount'' =
     total_amount_after (splitlines text) (length (splitlines text))"
    by (simp add: extract_scalars [OF run])
next
  assume v: "map_of (scalars (extract_invoice_data text)) ''total_amount'' = Some v"
  from field_pass_total_amount obtain invc0 where
    run: "run_steps (field_step (splitlines text)) [0 ..< length (splitlines text)] empty_invoice
            = Inr invc0" and
    ok: "\<forall>v. map_of (scalars invc0) ''total_amount'' = Some v \<longrightarrow>
              (\<exists>x. v = PNum x \<and> 0 \<le> x \<and> x < 1000)" by blast
  from v ok show "\<exists>x. v = PNum x \<and> 0 \<le> x \<and> x < 1000"
    by (simp add: extract_scalars [OF run])
next
  assume "i < length lines"
  then show "total_match lines i = probe_total (take 4 (drop i lines))"
    by (rule total_match_window)
next
  assume "i < length lines" "total_branch lines i (has_field invc ''tax_id'')"
  then show "field_step lines i invc =
        Inr (case probe_total (take 4 (drop i lines)) of
               Some m \<Rightarrow> set_field ''total_amount'' (PNum (token_value (mgroup m 1))) invc
             | None \<Rightarrow> invc)"
    by (rule field_step_total_branch)
next
  assume "i < n" "total_branch lines i (tax_id_after lines i)"
    "probe_total (take 4 (drop i lines)) = Some m"
    "\<forall>j. i < j \<and> j < n \<longrightarrow>
       \<not> (total_branch lines j (tax_id_after lines j) \<and>
          probe_total (take 4 (drop j lines)) \<noteq> None)"
  then show "total_amount_after lines n = Some (PNum (token_value (mgroup m 1)))"
    by (rule total_amount_after_last)
next
  show "(re_search total_regex s = None) = (\<not> list_ex is_digit s)"
    by (rule total_regex_search_iff)
next
  assume m: "re_search total_regex s = Some m'"
  then show "currency_token (mgroup m' 1)"
    by (intro currency_token_total_shape total_regex_group)
  from m show "py_float (replace_comma (mgroup m' 1)) = Inr (token_value (mgroup m' 1))"
    by (intro py_float_token_value total_regex_group)
  from token_value_bounds [OF total_regex_group [OF m]]
  show "0 \<le> token_value (mgroup m' 1)" "token_value (mgroup m' 1) < 1000" by simp_all
qed

theorem total_amount_three_digit_cap_witness:
  "map_of (scalars (extract_invoice_data probed_total_text)) ''total_amount'' =
     Some (PNum (1902 / 25)) \<and>
   (\<exists>x. PNum (1902 / 25) = PNum x \<and> 0 \<le> x \<and> x < 1000) \<and>
   field_step [''Total'', ''due'', [], ''$ 76,08'', ''99''] 0 empty_invoice =
     Inr (set_field ''total_amount'' (PNum (1902 / 25)) empty_invoice) \<and>
   total_match [''Total'', ''due'', [], ''$ 76,08'', ''99''] 0 =
     probe_total [''Total'', ''due'', [], ''$ 76,08''] \<and>
   re_search total_regex ''$ 76,08'' =
     Some \<lparr>m_start = 0, m_text = ''$ 76,08'', m_groups = [(1, ''76,08'')]\<rparr> \<and>
   currency_token ''76,08'' \<and>
   py_float (replace_comma ''76,08'') = Inr (1902 / 25) \<and>
   list_ex is_digit ''$ 76,08'' \<and>
   map_of (scalars (extract_invoice_data total_text)) ''total_amount'' = Some (PNum 123)"
proof -
  let ?L = "[''Total'', ''due'', [], ''$ 76,08'', ''99'']"
  let ?M = "\<lparr>m_start = 0, m_text = ''$ 76,08'', m_groups = [(1, ''76,08'')]\<rparr>"
  note t = total_amount_three_digit_cap
    [of probed_total_text "PNum (1902 / 25)" 0 "?L" empty_invoice 5 "?M" "''$ 76,08''" "?M"]
  note u = total_amount_three_digit_cap
    [of total_text "PNum 123" 0 "?L" empty_invoice 5 "?M" "''$ 76,08''" "?M"]
  have later: "\<forall>j. 0 < j \<and> j < 5 \<longrightarrow>
       \<not> (total_branch ?L j (tax_id_after ?L j) \<and> probe_total (take 4 (drop j ?L)) \<noteq> None)"
  proof (intro allI impI)
    fix j :: nat
    assume "0 < j \<and> j < 5"
    then have "j \<in> set [1 ..< 5]" by simp
    with probed_total_later
    show "\<not> (total_branch ?L j (tax_id_after ?L j) \<and> probe_total (take 4 (drop j ?L)) \<noteq> None)"
      unfolding list_all_iff by blast
  qed
  note t1 = t [THEN conjunct1]
  note t2 = t [THEN conjunct2, THEN conjunct1]
  note t3 = t [THEN conjunct2, THEN conjunct2, THEN conjunct1]
  note t4 = t [THEN conjunct2, THEN conjunct2, THEN conjunct2, THEN conjunct1]
  note t5 = t [THEN conjunct2, THEN conjunct2, THEN conjunct2, THEN conjunct2, THEN conjunct1]
  note t6 = t [THEN conjunct2, THEN conjunct2, THEN conjunct2, THEN conjunct2, THEN conjunct2]
  have z: "(0::nat) < 5" "(0::nat) < length ?L" by simp_all
  have len: "length ?L = 5" and len1: "length [''Total: 1234.56''] = 1" by simp_all
  from t4 z(1) probed_total_branch probed_total_probe later
  have 2: "total_amount_after ?L 5 = Some (PNum (token_value (mgroup ?M 1)))" by blast
  from t1 have "map_of (scalars (extract_invoice_data probed_total_text)) ''total_amount'' =
      total_amount_after ?L 5"
    by (simp only: probed_total_lines len)
  with 2 have a: "map_of (scalars (extract_invoice_data probed_total_text)) ''total_amount'' =
     Some (PNum (1902 / 25))"
    by (simp only: probed_total_token)
  with t2 have b: "\<exists>x. PNum (1902 / 25) = PNum x \<and> 0 \<le> x \<and> x < 1000" by blast
  from t3 z(2) probed_total_branch have 3: "total_match ?L 0 = probe_total (take 4 (drop 0 ?L)) \<and>
      field_step ?L 0 empty_invoice =
        Inr (case probe_total (take 4 (drop 0 ?L)) of
               Some m \<Rightarrow> set_field ''total_amount'' (PNum (token_value (mgroup m 1))) empty_invoice
             | None \<Rightarrow> empty_invoice)" by blast
  then have c: "field_step ?L 0 empty_invoice =
     Inr (set_field ''total_amount'' (PNum (1902 / 25)) empty_invoice)"
    by (simp only: probed_total_probe option.case probed_total_token)
  have "take 4 (drop 0 ?L) = [''Total'', ''due'', [], ''$ 76,08'']" by simp
  with 3 have d: "total_match ?L 0 = probe_total [''Total'', ''due'', [], ''$ 76,08'']"
    by (simp only:)
  from t6 probed_total_search
  have 4: "currency_token (mgroup ?M 1) \<and>
      py_float (replace_comma (mgroup ?M 1)) = Inr (token_value (mgroup ?M 1))" by blast
  then have e: "currency_token ''76,08''" "py_float (replace_comma ''76,08'') = Inr (1902 / 25)"
    by (simp_all only: probed_total_token)
  from t5 probed_total_search have f: "list_ex is_digit ''$ 76,08''" by simp
  from u [THEN conjunct1]
  have g: "map_of (scalars (extract_invoice_data total_text)) ''total_amount'' = Some (PNum 123)"
    by (simp only: total_text_lines len1 total_text_after)
  from a b c d probed_total_search e f g show ?thesis by blast
qed

text \<open>
  C8. When a line holds the keyword \<^verbatim>\<open>invoice number\<close> and that line with its lookahead has a
  digit, the line sets \<^verbatim>\<open>invoice_number\<close> to the first run of digits of line plus lookahead
  (what \<^verbatim>\<open>\d+\<close> matches), and the extracted record ends with the run of digits of the last
  such line: a non-empty string of digits only, never an alphanumeric token.
\<close>

theorem invoice_number_is_digit_run:
  assumes "i < length (splitlines text)"
    and "py_in ''invoice number'' (line_clean (splitlines text) i)"
    and "list_ex is_digit (combined_text (splitlines text) i)"
  shows "(\<forall>invc invc'. field_step (splitlines text) i invc = Inr invc' \<longrightarrow>
            map_of (scalars invc') ''invoice_number'' =
              Some (PStr (first_digit_run (combined_text (splitlines text) i)))) \<and>
         (\<exists>j. i \<le> j \<and> j < length (splitlines text) \<and>
              is_invoice_number_line (splitlines text) j \<and>
              list_ex is_digit (combined_text (splitlines text) j) \<and>
              (\<forall>j'. j < j' \<and> j' < length (splitlines text) \<longrightarrow>
                 \<not> (is_invoice_number_line (splitlines text) j' \<and>
                    list_ex is_digit (combined_text (splitlines text) j'))) \<and>
              map_of (scalars (extract_invoice_data text)) ''invoice_number'' =
                Some (PStr (first_digit_run (combined_text (splitlines text) j))) \<and>
              first_digit_run (combined_text (splitlines text) j) \<noteq> [] \<and>
              list_all is_digit (first_digit_run (combined_text (splitlines text) j)))"
proof
  from assms(2) have line: "is_invoice_number_line (splitlines text) i"
    by (simp add: is_invoice_number_line_def)
  with assms(3) show "\<forall>invc invc'. field_step (splitlines text) i invc = Inr invc' \<longrightarrow>
            map_of (scalars invc') ''invoice_number'' =
              Some (PStr (first_digit_run (combined_text (splitlines text) i)))"
    by (simp add: field_step_sets_invoice_number)
  from field_pass_invoice_number obtain invc where
    run: "run_steps (field_step (splitlines text)) [0 ..< length (splitlines text)] empty_invoice
            = Inr invc" and
    val: "map_of (scalars invc) ''invoice_number'' =
            invoice_number_after (splitlines text) (length (splitlines text))" by blast
  from invoice_number_after_last [OF assms(1) line assms(3)] obtain j where
    j: "i \<le> j" "j < length (splitlines text)" "is_invoice_number_line (splitlines text) j"
      "list_ex is_digit (combined_text (splitlines text) j)"
      "\<forall>j'. j < j' \<and> j' < length (splitlines text) \<longrightarrow>
         \<not> (is_invoice_number_line (splitlines text) j' \<and>
            list_ex is_digit (combined_text (splitlines text) j'))"
      "invoice_number_after (splitlines text) (length (splitlines text)) =
         Some (PStr (first_digit_run (combined_text (splitlines text) j)))" by blast
  have "map_of (scalars (extract_invoice_data text)) ''invoice_number'' =
          Some (PStr (first_digit_run (combined_text (splitlines text) j)))"
    using val j(6) by (simp add: extract_scalars [OF run])
  with j first_digit_run_nonempty [OF j(4)] first_digit_run_digits
  show "\<exists>j. i \<le> j \<and> j < length (splitlines text) \<and>
              is_invoice_number_line (splitlines text) j \<and>
              list_ex is_digit (combined_text (splitlines text) j) \<and>
              (\<forall>j'. j < j' \<and> j' < length (splitlines text) \<longrightarrow>
                 \<not> (is_invoice_number_line (splitlines text) j' \<and>
                    list_ex is_digit (combined_text (splitlines text) j'))) \<and>
              map_of (scalars (extract_invoice_data text)) ''invoice_number'' =
                Some (PStr (first_digit_run (combined_text (splitlines text) j))) \<and>
              first_digit_run (combined_text (splitlines text) j) \<noteq> [] \<and>
              list_all is_digit (first_digit_run (combined_text (splitlines text) j))"
    by blast
qed

lemma invoice_number_text_lines:
  "splitlines invoice_number_text = [''invoice number: INV-2024-0099'']"
  by code_simp

lemma invoice_number_text_run:
  "first_digit_run (combined_text [''invoice number: INV-2024-0099''] 0) = ''2024''"
  by code_simp

theorem invoice_number_is_digit_run_witness:
  "0 < length (splitlines invoice_number_text) \<and>
   py_in ''invoice number'' (line_clean (splitlines invoice_number_text) 0) \<and>
   list_ex is_digit (combined_text (splitlines invoice_number_text) 0) \<and>
   map_of (scalars (extract_invoice_data invoice_number_text)) ''invoice_number'' =
     Some (PStr ''2024'')"
proof -
  have a: "0 < length (splitlines invoice_number_text)"
    by (simp add: invoice_number_text_lines)
  have b: "py_in ''invoice number'' (line_clean (splitlines invoice_number_text) 0)"
    unfolding invoice_number_text_lines by code_simp
  have c: "list_ex is_digit (combined_text (splitlines invoice_number_text) 0)"
    unfolding invoice_number_text_lines by code_simp
  from invoice_number_is_digit_run [OF a b c] obtain j where
    "j < length (splitlines invoice_number_text)"
    "map_of (scalars (extract_invoice_data invoice_number_text)) ''invoice_number'' =
       Some (PStr (first_digit_run (combined_text (splitlines invoice_number_text) j)))"
    by blast
  then have "map_of (scalars (extract_invoice_data invoice_number_text)) ''invoice_number'' =
       Some (PStr ''2024'')"
    by (simp add: invoice_number_text_lines invoice_number_text_run)
  with a b c show ?thesis by blast
qed

text \<open>
  C9. Whenever the body of \<^verbatim>\<open>extract_invoice_data\<close> ends without an exception, the returned
  record holds the key \<^verbatim>\<open>line_items\<close> with a list, possibly empty; a returned record without
  that key can only come from the exception handler. On a text of type \<^verbatim>\<open>str\<close> the body
  always ends without an exception.
\<close>

theorem line_items_always_present:
  "(\<exists>invc. extract_invoice_data_body text = Inr invc) \<and>
   (\<forall>invc. extract_invoice_data_body text = Inr invc \<longrightarrow>
      extract_invoice_data text = invc \<and> (\<exists>its. line_items invc = Some its)) \<and>
   (line_items (extract_invoice_data text) = None \<longrightarrow>
      (\<exists>e. extract_invoice_data_body text = Inl e))"
proof -
  from body_total obtain invc its where
    b: "extract_invoice_data_body text = Inr invc" and l: "line_items invc = Some its" by blast
  then have "extract_invoice_data text = invc" by (simp add: extract_invoice_data_def)
  with b l show ?thesis by auto
qed

lemma plain_text_body:
  "extract_invoice_data_body plain_text =
     Inr \<lparr>scalars = [], line_items = Some [], warnings = None, anomalous_items = None\<rparr>"
  by code_simp

theorem line_items_always_present_witness:
  "extract_invoice_data_body plain_text =
     Inr \<lparr>scalars = [], line_items = Some [], warnings = None, anomalous_items = None\<rparr> \<and>
   extract_invoice_data plain_text =
     \<lparr>scalars = [], line_items = Some [], warnings = None, anomalous_items = None\<rparr> \<and>
   line_items (extract_invoice_data plain_text) = Some [] \<and>
   line_items empty_invoice = None"
proof -
  from line_items_always_present [of plain_text] plain_text_body
  have "extract_invoice_data plain_text =
     \<lparr>scalars = [], line_items = Some [], warnings = None, anomalous_items = None\<rparr>"
    by blast
  then show ?thesis using plain_text_body by (simp add: empty_invoice_def)
qed
section \<open>The reply of the language model\<close>
















section \<open>The method tag of a processing result\<close>

lemma process_image_ocr_method: "r_method (process_image_ocr lib f) = Some ''ocr''"
  by (simp add: process_image_ocr_def error_result_def text_result_def split: sum.splits)

lemma process_pdf_body_method:
  "process_pdf_body lib f = Inr r \<Longrightarrow>
     r_status r = ''success'' \<and> (r_method r = Some ''ocr'' \<or> r_method r = Some ''text_extraction'')"
  by (auto simp add: process_pdf_body_def Let_def text_result_def
           split: sum.splits list.splits if_splits)

lemma process_pdf_method:
  "(r_status (process_pdf lib f) = ''success'' \<and>
      (r_method (process_pdf lib f) = Some ''ocr'' \<or>
       r_method (process_pdf lib f) = Some ''text_extraction'')) \<or>
   (r_status (process_pdf lib f) = ''error'' \<and>
      r_method (process_pdf lib f) = Some ''pdf_processing'')"
proof (cases "process_pdf_body lib f")
  case (Inl e)
  then show ?thesis by (simp add: process_pdf_def error_result_def)
next
  case (Inr r)
  from process_pdf_body_method [OF Inr] Inr show ?thesis by (simp add: process_pdf_def)
qed

lemma process_with_markitdown_body_method:
  "process_with_markitdown_body lib f = Inr r \<Longrightarrow> r_method r = Some ''markitdown''"
  by (auto simp add: process_with_markitdown_body_def conversion_only_result_def
           split: sum.splits option.splits if_splits)

lemma process_with_markitdown_method:
  "r_method (process_with_markitdown lib f) = Some ''markitdown''"
proof (cases "process_with_markitdown_body lib f")
  case (Inl e)
  then show ?thesis by (simp add: process_with_markitdown_def error_result_def)
next
  case (Inr r)
  from process_with_markitdown_body_method [OF Inr] Inr show ?thesis
    by (simp add: process_with_markitdown_def error_result_def)
qed

lemma photo_result: "r_method (process_document lib0 (Some photo)) = Some ''ocr''"
  by code_simp

lemma damaged_pdf_result:
  "process_document lib0 (Some damaged_pdf) =
     error_result (Some ''pdf_processing'') ''Error processing PDF: cannot open broken document''"
  by code_simp

lemma sheet_result:
  "process_document lib0 (Some sheet) = conversion_only_result ''# Invoice''"
  by code_simp

text \<open>
  C3. The method tag of a result of \<^verbatim>\<open>process_document\<close> is fixed by the path that produced
  it. Without an upload the result has no method. For an image extension every result, the
  error result included, is tagged \<open>ocr\<close>. For the extension \<open>pdf\<close> a success is tagged \<open>ocr\<close> or
  \<open>text_extraction\<close> and an error is tagged \<open>pdf_processing\<close>. For every other extension the
  result, whatever its status, is tagged \<open>markitdown\<close>. So a method that is present is one of
  \<open>ocr\<close>, \<open>text_extraction\<close>, \<open>pdf_processing\<close> and \<open>markitdown\<close>.
\<close>

theorem method_tag_by_path:
  "r_method (process_document lib None) = None \<and>
   (file_extension f \<in> set image_extensions \<longrightarrow>
      r_method (process_document lib (Some f)) = Some ''ocr'') \<and>
   (file_extension f = ''pdf'' \<longrightarrow>
      (r_status (process_document lib (Some f)) = ''success'' \<and>
         (r_method (process_document lib (Some f)) = Some ''ocr'' \<or>
          r_method (process_document lib (Some f)) = Some ''text_extraction'')) \<or>
      (r_status (process_document lib (Some f)) = ''error'' \<and>
         r_method (process_document lib (Some f)) = Some ''pdf_processing'')) \<and>
   (file_extension f \<notin> set image_extensions \<longrightarrow> file_extension f \<noteq> ''pdf'' \<longrightarrow>
      r_method (process_document lib (Some f)) = Some ''markitdown'') \<and>
   (\<forall>m. r_method (process_document lib (Some f)) = Some m \<longrightarrow> m \<in> set returned_methods)"
proof (intro conjI impI allI)
  show "r_method (process_document lib None) = None"
    by (simp add: process_document_def error_result_def)
next
  assume "file_extension f \<in> set image_extensions"
  then show "r_method (process_document lib (Some f)) = Some ''ocr''"
    by (simp add: process_document_def process_image_ocr_method)
next
  assume e: "file_extension f = ''pdf''"
  have "''pdf'' \<notin> set image_extensions" by (simp add: image_extensions_def)
  with e have "process_document lib (Some f) = process_pdf lib f"
    by (simp add: process_document_def)
  with process_pdf_method [of lib f]
  show "(r_status (process_document lib (Some f)) = ''success'' \<and>
         (r_method (process_document lib (Some f)) = Some ''ocr'' \<or>
          r_method (process_document lib (Some f)) = Some ''text_extraction'')) \<or>
      (r_status (process_document lib (Some f)) = ''error'' \<and>
         r_method (process_document lib (Some f)) = Some ''pdf_processing'')"
    by simp
next
  assume "file_extension f \<notin> set image_extensions" "file_extension f \<noteq> ''pdf''"
  then show "r_method (process_document lib (Some f)) = Some ''markitdown''"
    by (simp add: process_document_def process_with_markitdown_method)
next
  fix m assume m: "r_method (process_document lib (Some f)) = Some m"
  have "process_document lib (Some f) = process_image_ocr lib f \<or>
        process_document lib (Some f) = process_pdf lib f \<or>
        process_document lib (Some f) = process_with_markitdown lib f"
    by (simp add: process_document_def)
  with m process_image_ocr_method [of lib f] process_pdf_method [of lib f]
       process_with_markitdown_method [of lib f]
  show "m \<in> set returned_methods"
    by (auto simp add: returned_methods_def)
qed

theorem method_tag_by_path_witness:
  "file_extension photo \<in> set image_extensions \<and>
   r_method (process_document lib0 (Some photo)) = Some ''ocr'' \<and>
   file_extension damaged_pdf = ''pdf'' \<and>
   r_status (process_document lib0 (Some damaged_pdf)) = ''error'' \<and>
   r_method (process_document lib0 (Some damaged_pdf)) = Some ''pdf_processing'' \<and>
   file_extension sheet \<notin> set image_extensions \<and> file_extension sheet \<noteq> ''pdf'' \<and>
   r_method (process_document lib0 (Some sheet)) = Some ''markitdown'' \<and>
   ''markitdown'' \<in> set returned_methods"
proof -
  have p: "file_extension photo \<in> set image_extensions" by code_simp
  have d: "file_extension damaged_pdf = ''pdf''" by code_simp
  have s: "file_extension sheet \<notin> set image_extensions" "file_extension sheet \<noteq> ''pdf''"
    by code_simp+
  note a = method_tag_by_path [of lib0 photo] method_tag_by_path [of lib0 damaged_pdf]
    method_tag_by_path [of lib0 sheet]
  from a p have 1: "r_method (process_document lib0 (Some photo)) = Some ''ocr''" by blast
  from a(2) d have 2: "(r_status (process_document lib0 (Some damaged_pdf)) = ''success'' \<and>
         (r_method (process_document lib0 (Some damaged_pdf)) = Some ''ocr'' \<or>
          r_method (process_document lib0 (Some damaged_pdf)) = Some ''text_extraction'')) \<or>
      (r_status (process_document lib0 (Some damaged_pdf)) = ''error'' \<and>
         r_method (process_document lib0 (Some damaged_pdf)) = Some ''pdf_processing'')"
    by blast
  have "r_status (process_document lib0 (Some damaged_pdf)) = ''error''"
    by (simp add: damaged_pdf_result error_result_def)
  with 2 have 3: "r_status (process_document lib0 (Some damaged_pdf)) = ''error'' \<and>
         r_method (process_document lib0 (Some damaged_pdf)) = Some ''pdf_processing''"
    by simp
  from a(3) s have 4: "r_method (process_document lib0 (Some sheet)) = Some ''markitdown''"
    by blast
  with a(3) have 5: "''markitdown'' \<in> set returned_methods" by blast
  from p d s 1 3 4 5 show ?thesis by blast
qed

text \<open>
  The error result of the PDF path and the results of the conversion path carry tags that are
  not among \<open>ocr\<close>, \<open>text_extraction\<close> and \<open>markup_conversion\<close>.
\<close>

theorem undocumented_method_tags:
  "r_status (process_document lib0 (Some damaged_pdf)) = ''error'' \<and>
   r_method (process_document lib0 (Some damaged_pdf)) = Some ''pdf_processing'' \<and>
   ''pdf_processing'' \<notin> set documented_methods \<and>
   r_method (process_document lib0 (Some sheet)) = Some ''markitdown'' \<and>
   ''markitdown'' \<notin> set documented_methods"
  by (simp add: damaged_pdf_result sheet_result error_result_def conversion_only_result_def
        documented_methods_def)

section \<open>Text layer or OCR in \<^verbatim>\<open>process_pdf\<close>\<close>

lemma process_pdf_body_text:
  assumes "page_texts lib (getvalue f) = Inr pages"
    and "strip (join [newline] pages) \<noteq> []"
  shows "process_pdf_body lib f = Inr (text_result ''text_extraction'' (join [newline] pages))"
  using assms by (simp add: process_pdf_body_def Let_def)

lemma process_pdf_body_blank:
  assumes "page_texts lib (getvalue f) = Inr pages"
    and "strip (join [newline] pages) = []"
  shows "process_pdf_body lib f =
           (case convert_from_bytes lib (getvalue f) of
              Inl e \<Rightarrow> Inl e
            | Inr images \<Rightarrow>
                (case images of
                   [] \<Rightarrow> Inl IndexError
                 | img # _ \<Rightarrow>
                     (case image_to_string lib img of
                        Inl e \<Rightarrow> Inl e
                      | Inr ocr_text \<Rightarrow> Inr (text_result ''ocr'' ocr_text))))"
  using assms by (simp add: process_pdf_body_def Let_def)

lemma text_pdf_pages: "page_texts lib0 (getvalue text_pdf) = Inr [''Invoice no: 7'']"
  by code_simp

lemma scanned_pdf_pages: "page_texts lib0 (getvalue scanned_pdf) = Inr [[], []]"
  by code_simp

lemma blank_pages_text: "join [newline] [[], []] = [newline] \<and> strip [newline] = []"
  by code_simp

lemma one_page_text:
  "join [newline] [''Invoice no: 7''] = ''Invoice no: 7'' \<and> strip ''Invoice no: 7'' \<noteq> []"
  by code_simp

lemma scanned_pdf_images:
  "convert_from_bytes lib0 (getvalue scanned_pdf) = Inr [''%PDF-scan'', ''%PDF-scan''] \<and>
   image_to_string lib0 ''%PDF-scan'' = Inr ''Total: 12.50''"
  by code_simp

lemma no_rasterizer:
  "page_texts (lib0\<lparr>convert_from_bytes := \<lambda>b. Inl (External ''poppler is not installed'')\<rparr>)
     (getvalue scanned_pdf) = Inr [[], []] \<and>
   convert_from_bytes (lib0\<lparr>convert_from_bytes := \<lambda>b. Inl (External ''poppler is not installed'')\<rparr>)
     (getvalue scanned_pdf) = Inl (External ''poppler is not installed'') \<and>
   str_of (lib0\<lparr>convert_from_bytes := \<lambda>b. Inl (External ''poppler is not installed'')\<rparr>)
     (External ''poppler is not installed'') = ''poppler is not installed''"
  by code_simp

text \<open>
  C4. Let the PDF reader return the texts of the pages, and let the extracted text be these
  texts joined by newlines. If the extracted text is not empty after stripping whitespace,
  \<^verbatim>\<open>process_pdf\<close> returns the success result tagged \<open>text_extraction\<close> for it, and the
  rasterizer and the OCR engine have no influence on the result. If the stripped text is empty,
  the result is never tagged \<open>text_extraction\<close>: it is the success result tagged \<open>ocr\<close> for the
  text read from the first page image when rasterizing and reading succeed, and otherwise
  (the rasterizer raises, it returns no image, or the OCR engine raises) it is the error
  result tagged \<open>pdf_processing\<close> with the message of the exception.
\<close>

theorem pdf_method_by_stripped_text:
  assumes "page_texts lib (getvalue f) = Inr pages"
  shows
    "(strip (join [newline] pages) \<noteq> [] \<longrightarrow>
        process_pdf lib f = text_result ''text_extraction'' (join [newline] pages) \<and>
        r_method (process_pdf lib f) = Some ''text_extraction'' \<and>
        process_pdf (lib\<lparr>convert_from_bytes := rasterize, image_to_string := ocr\<rparr>) f =
          process_pdf lib f) \<and>
     (strip (join [newline] pages) = [] \<longrightarrow>
        r_method (process_pdf lib f) \<noteq> Some ''text_extraction'' \<and>
        (\<forall>img rest ocr_text.
            convert_from_bytes lib (getvalue f) = Inr (img # rest) \<longrightarrow>
            image_to_string lib img = Inr ocr_text \<longrightarrow>
              process_pdf lib f = text_result ''ocr'' ocr_text) \<and>
        (r_method (process_pdf lib f) = Some ''ocr'' \<longrightarrow>
           (\<exists>img rest ocr_text.
              convert_from_bytes lib (getvalue f) = Inr (img # rest) \<and>
              image_to_string lib img = Inr ocr_text)) \<and>
        (\<forall>e. convert_from_bytes lib (getvalue f) = Inl e \<longrightarrow>
            process_pdf lib f =
              error_result (Some ''pdf_processing'') (''Error processing PDF: '' @ str_of lib e)) \<and>
        (convert_from_bytes lib (getvalue f) = Inr [] \<longrightarrow>
            process_pdf lib f =
              error_result (Some ''pdf_processing'')
                (''Error processing PDF: '' @ str_of lib IndexError)) \<and>
        (\<forall>img rest e.
            convert_from_bytes lib (getvalue f) = Inr (img # rest) \<longrightarrow>
            image_to_string lib img = Inl e \<longrightarrow>
              process_pdf lib f =
                error_result (Some ''pdf_processing'') (''Error processing PDF: '' @ str_of lib e)) \<and>
        ((r_status (process_pdf lib f) = ''success'' \<and>
          r_method (process_pdf lib f) = Some ''ocr'') \<or>
         (r_status (process_pdf lib f) = ''error'' \<and>
          r_method (process_pdf lib f) = Some ''pdf_processing'')))"
proof (intro conjI impI allI)
  assume t: "strip (join [newline] pages) \<noteq> []"
  from process_pdf_body_text [OF assms t]
  show 1: "process_pdf lib f = text_result ''text_extraction'' (join [newline] pages)"
    by (simp add: process_pdf_def)
  then show "r_method (process_pdf lib f) = Some ''text_extraction''"
    by (simp add: text_result_def)
  let ?lib = "lib\<lparr>convert_from_bytes := rasterize, image_to_string := ocr\<rparr>"
  have "page_texts ?lib (getvalue f) = Inr pages" using assms by simp
  from process_pdf_body_text [OF this t] 1
  show "process_pdf ?lib f = process_pdf lib f" by (simp add: process_pdf_def)
next
  assume t: "strip (join [newline] pages) = []"
  note b = process_pdf_body_blank [OF assms t]
  show "r_method (process_pdf lib f) \<noteq> Some ''text_extraction''"
    by (simp add: process_pdf_def b error_result_def text_result_def
          split: sum.splits list.splits)
  show "r_method (process_pdf lib f) = Some ''ocr'' \<Longrightarrow>
        \<exists>img rest ocr_text.
              convert_from_bytes lib (getvalue f) = Inr (img # rest) \<and>
              image_to_string lib img = Inr ocr_text"
    by (simp add: process_pdf_def b error_result_def text_result_def
          split: sum.splits list.splits)
  show "(r_status (process_pdf lib f) = ''success'' \<and>
          r_method (process_pdf lib f) = Some ''ocr'') \<or>
         (r_status (process_pdf lib f) = ''error'' \<and>
          r_method (process_pdf lib f) = Some ''pdf_processing'')"
    by (simp add: process_pdf_def b error_result_def text_result_def
          split: sum.splits list.splits)
  show "convert_from_bytes lib (getvalue f) = Inr [] \<Longrightarrow>
            process_pdf lib f =
              error_result (Some ''pdf_processing'')
                (''Error processing PDF: '' @ str_of lib IndexError)"
    by (simp add: process_pdf_def b)
  {
    fix img rest ocr_text
    assume "convert_from_bytes lib (getvalue f) = Inr (img # rest)"
      "image_to_string lib img = Inr ocr_text"
    then show "process_pdf lib f = text_result ''ocr'' ocr_text"
      by (simp add: process_pdf_def b)
  }
  {
    fix e
    assume "convert_from_bytes lib (getvalue f) = Inl e"
    then show "process_pdf lib f =
              error_result (Some ''pdf_processing'') (''Error processing PDF: '' @ str_of lib e)"
      by (simp add: process_pdf_def b)
  }
  {
    fix img rest e
    assume "convert_from_bytes lib (getvalue f) = Inr (img # rest)"
      "image_to_string lib img = Inl e"
    then show "process_pdf lib f =
              error_result (Some ''pdf_processing'') (''Error processing PDF: '' @ str_of lib e)"
      by (simp add: process_pdf_def b)
  }
qed

theorem pdf_method_by_stripped_text_witness:
  "page_texts lib0 (getvalue text_pdf) = Inr [''Invoice no: 7''] \<and>
   strip (join [newline] [''Invoice no: 7'']) \<noteq> [] \<and>
   process_pdf lib0 text_pdf = text_result ''text_extraction'' ''Invoice no: 7'' \<and>
   page_texts lib0 (getvalue scanned_pdf) = Inr [[], []] \<and>
   strip (join [newline] [[], []]) = [] \<and>
   process_pdf lib0 scanned_pdf = text_result ''ocr'' ''Total: 12.50'' \<and>
   process_pdf (lib0\<lparr>convert_from_bytes := \<lambda>b. Inl (External ''poppler is not installed'')\<rparr>)
     scanned_pdf =
     error_result (Some ''pdf_processing'') ''Error processing PDF: poppler is not installed''"
proof -
  let ?lib = "lib0\<lparr>convert_from_bytes := \<lambda>b. Inl (External ''poppler is not installed'')\<rparr>"
  have t: "strip (join [newline] [''Invoice no: 7'']) \<noteq> []" by (simp add: one_page_text)
  have s: "strip (join [newline] [[], []]) = []" by (simp add: blank_pages_text)
  from pdf_method_by_stripped_text [OF text_pdf_pages] t
  have 1: "process_pdf lib0 text_pdf =
             text_result ''text_extraction'' (join [newline] [''Invoice no: 7''])"
    by blast
  from pdf_method_by_stripped_text [OF scanned_pdf_pages] s
  have "\<forall>img rest ocr_text.
            convert_from_bytes lib0 (getvalue scanned_pdf) = Inr (img # rest) \<longrightarrow>
            image_to_string lib0 img = Inr ocr_text \<longrightarrow>
              process_pdf lib0 scanned_pdf = text_result ''ocr'' ocr_text"
    by blast
  with scanned_pdf_images have 2: "process_pdf lib0 scanned_pdf = text_result ''ocr'' ''Total: 12.50''"
    by blast
  from no_rasterizer have p: "page_texts ?lib (getvalue scanned_pdf) = Inr [[], []]" by blast
  from pdf_method_by_stripped_text [OF p] s
  have "\<forall>e. convert_from_bytes ?lib (getvalue scanned_pdf) = Inl e \<longrightarrow>
            process_pdf ?lib scanned_pdf =
              error_result (Some ''pdf_processing'') (''Error processing PDF: '' @ str_of ?lib e)"
    by blast
  with no_rasterizer have "process_pdf ?lib scanned_pdf =
     error_result (Some ''pdf_processing'')
       (''Error processing PDF: '' @ str_of ?lib (External ''poppler is not installed''))"
    by blast
  with no_rasterizer have 3: "process_pdf ?lib scanned_pdf =
     error_result (Some ''pdf_processing'') ''Error processing PDF: poppler is not installed''"
    by simp
  from 1 2 3 t s text_pdf_pages scanned_pdf_pages show ?thesis by (simp add: one_page_text)
qed

text \<open>
  Two blank pages give the extracted text of one newline, which is not empty, and the result
  is that of OCR.
\<close>

theorem blank_pages_run_ocr:
  "page_texts lib0 (getvalue scanned_pdf) = Inr [[], []] \<and>
   join [newline] [[], []] = [newline] \<and>
   join [newline] [[], []] \<noteq> [] \<and>
   r_status (process_pdf lib0 scanned_pdf) = ''success'' \<and>
   r_method (process_pdf lib0 scanned_pdf) = Some ''ocr'' \<and>
   r_raw_text (process_pdf lib0 scanned_pdf) = Some ''Total: 12.50''"
  by code_simp

end
